theory Spec2Isabelle
  imports Complex_Main
begin

section \<open>Python values and exceptions\<close>

text \<open>
  The values that travel through the exception handlers of \<^verbatim>\<open>openems/api.py\<close>:
  the members of \<^verbatim>\<open>e.args\<close> of a \<^verbatim>\<open>ProtocolError\<close> (an error code, a message, the
  response). \<open>PyOther s\<close> is any other object, given by the text \<^verbatim>\<open>str()\<close> returns for it.
\<close>

datatype pyval = PyNone | PyInt int | PyStr string | PyOther string

text \<open>
  Exceptions are values. \<open>APIError message code\<close> is \<^verbatim>\<open>openems.exceptions.APIError\<close>:
  its constructor passes \<^verbatim>\<open>message\<close> to \<^verbatim>\<open>Exception\<close> and stores \<^verbatim>\<open>code\<close> as it is given.
  \<open>ProtocolError args\<close> is \<^verbatim>\<open>jsonrpc_base.jsonrpc.ProtocolError\<close> with its \<^verbatim>\<open>args\<close> tuple.
  \<open>OtherError s\<close> is any exception the code neither raises nor catches by name
  (a transport error, a cancelled connection, ...).
\<close>

datatype pyexn =
    TimeoutError
  | RuntimeError string
  | ValueError string
  | AttributeError string
  | IndexError string
  | KeyError string
  | ProtocolError "pyval list"
  | APIError string pyval
  | OtherError string

section \<open>The bridge: \<^verbatim>\<open>openems/utils/bridge.py\<close>\<close>

subsection \<open>The world around the bridge\<close>

text \<open>
  An event loop object; \<open>is_running\<close> is what \<^verbatim>\<open>loop.is_running()\<close> answers. The calling
  thread's context is the loop \<^verbatim>\<open>asyncio.get_running_loop()\<close> finds there, if any.
\<close>

record loop =
  loop_id :: nat
  is_running :: bool

text \<open>
  Every call the bridge makes into asyncio and concurrent.futures is logged, oldest
  first. The log is the world the bridge acts on: which path a call took, and how many
  loops were ever created, are read from it.
\<close>

datatype lib_call =
    NewExecutor int
  | NewEventLoop nat
  | SetEventLoop nat
  | Submit
  | FutureResult "real option"
  | RunUntilComplete nat
  | ExecutorShutdown bool

type_synonym world = "lib_call list"

text \<open>
  An asynchronous operation, seen from the bridge, which never looks inside it: driven
  to completion it resolves after some time (in seconds) with a result or a failure, or
  it never resolves.
\<close>

datatype 'r awaited = Resolves real "pyexn + 'r" | Never

fun resolution :: "'r awaited \<Rightarrow> (pyexn + 'r) option" where
  "resolution (Resolves d out) = Some out"
| "resolution Never = None"

text \<open>
  What a blocking call gives its caller: the value returned or the exception raised,
  and how long the caller was blocked. A call that never returns gives \<open>None\<close>.
\<close>

record 'r returned =
  outcome :: "pyexn + 'r"
  blocked_for :: real

text \<open>
  A task the pool has accepted and not yet finished: the operation it runs and the time
  from now until a worker takes it (negative once it was taken, \<open>None\<close> when no worker
  ever will). It finishes when it was taken and its operation has resolved.
\<close>

record 'r job =
  starts_in :: "real option"
  work :: "'r awaited"

definition finishes_in :: "'r job \<Rightarrow> real option" where
  "finishes_in j =
     (case starts_in j of
        None \<Rightarrow> None
      | Some s \<Rightarrow> (case work j of Never \<Rightarrow> None | Resolves d out \<Rightarrow> Some (s + d)))"

text \<open>
  The state of a \<^verbatim>\<open>ThreadPoolExecutor\<close>: its size, whether it was shut down, the tasks
  it accepted that have not finished, in the order of their submission, and the
  outcomes of the tasks that finished on a worker, in the order they finished.
\<close>

record 'r executor =
  max_workers :: int
  shut_down :: bool
  in_flight :: "'r job list"
  settled :: "(pyexn + 'r) list"

subsection \<open>The library, at its interface\<close>

text \<open>
  Modelled from the spec: the Execution Context Detector's query of section 4.1,
  \<^verbatim>\<open>asyncio.get_running_loop()\<close>, which is not part of the repository. It gives the loop
  running on the calling thread and raises \<^verbatim>\<open>RuntimeError\<close> when there is none.
\<close>

definition get_running_loop :: "loop option \<Rightarrow> pyexn + loop" where
  "get_running_loop ctx =
     (case ctx of
        None \<Rightarrow> Inl (RuntimeError ''no running event loop'')
      | Some l \<Rightarrow> Inr l)"

text \<open>How many loops were created so far, read from the log.\<close>

definition loops_created :: "world \<Rightarrow> nat" where
  "loops_created w = length (filter (\<lambda>c. case c of NewEventLoop i \<Rightarrow> True | _ \<Rightarrow> False) w)"

text \<open>
  Modelled from the spec: the creation of a cooperative loop (section 4.2),
  \<^verbatim>\<open>asyncio.new_event_loop()\<close>, which is not part of the repository. The new loop is not
  running; its identity is the number of loops created before it.
\<close>

definition new_event_loop :: "world \<Rightarrow> loop \<times> world" where
  "new_event_loop w =
     (let l = \<lparr>loop_id = loops_created w, is_running = False\<rparr>
      in (l, w @ [NewEventLoop (loop_id l)]))"

text \<open>
  Modelled from the spec: \<^verbatim>\<open>asyncio.set_event_loop(loop)\<close>, which is not part of the
  repository: it makes the loop the current one of the constructing thread (section 4.2:
  the loop is owned by that thread) without running it.
\<close>

definition set_event_loop :: "loop \<Rightarrow> world \<Rightarrow> world" where
  "set_event_loop l w = w @ [SetEventLoop (loop_id l)]"

text \<open>
  Modelled from the spec: the Owned Scheduler Loop's \<open>runToCompletion\<close> of section 4.2,
  \<^verbatim>\<open>loop.run_until_complete\<close>, called on a thread whose context is \<open>ctx\<close>: it drives the
  operation until it resolves, returns its result or propagates its failure, and blocks
  the caller for that long. Section 4.2 calls a call from inside a running loop misuse
  and leaves it undefined; asyncio refuses it with \<^verbatim>\<open>RuntimeError\<close> before the operation
  is driven, and so does the model.
\<close>

definition run_until_complete ::
  "loop \<Rightarrow> loop option \<Rightarrow> 'r awaited \<Rightarrow> world \<Rightarrow> 'r returned option \<times> world" where
  "run_until_complete l ctx f w =
     (case ctx of
        Some running \<Rightarrow>
          (Some \<lparr>outcome = Inl (RuntimeError ''Cannot run the event loop while another loop is running''),
                 blocked_for = 0\<rparr>,
           w @ [RunUntilComplete (loop_id l)])
      | None \<Rightarrow>
          (case f of
             Never \<Rightarrow> (None, w @ [RunUntilComplete (loop_id l)])
           | Resolves d out \<Rightarrow>
               (Some \<lparr>outcome = out, blocked_for = d\<rparr>, w @ [RunUntilComplete (loop_id l)])))"

text \<open>
  Modelled from the spec: the Dispatch Worker Pool of section 4.3,
  \<^verbatim>\<open>concurrent.futures.ThreadPoolExecutor\<close>, which is not part of the repository: a pool
  of fixed size, with no task yet. The constructor refuses a size that is not positive.
\<close>

definition ThreadPoolExecutor :: "int \<Rightarrow> world \<Rightarrow> (pyexn + 'r executor) \<times> world" where
  "ThreadPoolExecutor n w =
     (if n \<le> 0 then (Inl (ValueError ''max_workers must be greater than 0''), w)
      else (Inr \<lparr>max_workers = n, shut_down = False, in_flight = [], settled = []\<rparr>,
            w @ [NewExecutor n]))"

text \<open>
  Modelled from the spec: the pool's scheduling of sections 4.3 and 5. The workers take
  the tasks in the order of their submission, a worker runs one task at a time, and a
  pool of size \<open>N\<close> runs up to \<open>N\<close> tasks at once. So a task submitted now, behind \<open>k\<close>
  unfinished tasks, is taken at once when \<open>k < N\<close>, and otherwise when \<open>k - N + 1\<close> of the
  tasks before it have finished: never, when fewer than that ever finish. For a pool of
  size one that is when every task before it has finished.
\<close>

definition start_delay :: "'r executor \<Rightarrow> real option" where
  "start_delay ex =
     (let k = int (length (in_flight ex));
          fs = sort (List.map_filter finishes_in (in_flight ex));
          m = k - max_workers ex
      in if m < 0 then Some 0
         else if nat m < length fs then Some (max 0 (fs ! nat m))
         else None)"

text \<open>
  Modelled from the spec: \<open>submit\<close> of section 4.3, \<^verbatim>\<open>ThreadPoolExecutor.submit\<close>, which is
  not part of the repository. It queues the task behind the tasks in flight and returns
  its future; a pool that has released its workers (section 4.5) accepts no task any
  more and \<open>submit\<close> raises \<^verbatim>\<open>RuntimeError\<close>.
\<close>

definition submit :: "'r executor \<Rightarrow> 'r awaited \<Rightarrow> world \<Rightarrow> (pyexn + 'r job) \<times> 'r executor \<times> world" where
  "submit ex task w =
     (if shut_down ex
      then (Inl (RuntimeError ''cannot schedule new futures after shutdown''), ex, w @ [Submit])
      else (Inr \<lparr>starts_in = start_delay ex, work = task\<rparr>,
            ex\<lparr>in_flight := in_flight ex @ [\<lparr>starts_in = start_delay ex, work = task\<rparr>]\<rparr>,
            w @ [Submit]))"

text \<open>
  Modelled from the spec: \<^verbatim>\<open>asgiref.sync.async_to_sync\<close>, by which a worker drives the
  operation on a private loop of its own (section 4.3). The task resolves as the
  operation does: a failure carries the original error.
\<close>

definition async_to_sync :: "'r awaited \<Rightarrow> 'r awaited" where
  "async_to_sync f = f"

text \<open>
  Modelled from the spec: the passing of time in the pool (sections 4.3 and 5). After
  \<open>dt\<close> seconds every task in flight is that much nearer to its worker; the tasks that
  have finished by then leave the pool, their outcomes recorded in the order they
  finished, and no task is ever cancelled. \<open>drain\<close> is the pool after all the time
  there is: every task that ever finishes has finished.
\<close>

definition later :: "real \<Rightarrow> 'r job \<Rightarrow> 'r job" where
  "later dt j = j\<lparr>starts_in := map_option (\<lambda>s. s - dt) (starts_in j)\<rparr>"

definition finished :: "'r job \<Rightarrow> bool" where
  "finished j = (case finishes_in j of None \<Rightarrow> False | Some c \<Rightarrow> c \<le> 0)"

definition finish_key :: "'r job \<Rightarrow> real" where
  "finish_key j = (case finishes_in j of None \<Rightarrow> 0 | Some c \<Rightarrow> c)"

definition outcomes :: "'r job list \<Rightarrow> (pyexn + 'r) list" where
  "outcomes js = List.map_filter (\<lambda>j. resolution (work j)) (sort_key finish_key js)"

definition elapse :: "real \<Rightarrow> 'r executor \<Rightarrow> 'r executor" where
  "elapse dt ex =
     ex\<lparr>in_flight := filter (\<lambda>j. \<not> finished j) (map (later dt) (in_flight ex)),
        settled := settled ex @ outcomes (filter finished (map (later dt) (in_flight ex)))\<rparr>"

definition drain :: "'r executor \<Rightarrow> 'r executor" where
  "drain ex =
     ex\<lparr>in_flight := filter (\<lambda>j. finishes_in j = None) (in_flight ex),
        settled := settled ex @ outcomes (filter (\<lambda>j. finishes_in j \<noteq> None) (in_flight ex))\<rparr>"

text \<open>
  Modelled from the spec: the wait on a future, \<^verbatim>\<open>Future.result(timeout)\<close> (section 4.3).
  Without a timeout the caller waits until the task has finished on its worker, for
  ever when it never does. With one, a task that finishes in time gives its result or
  failure; when the wait exceeds the timeout the wait fails with \<^verbatim>\<open>TimeoutError\<close> and
  the task stays in flight: nothing cancels it. The pool goes on for as long as the
  caller waits.
\<close>

definition future_result ::
  "'r job \<Rightarrow> real option \<Rightarrow> 'r executor \<Rightarrow> world \<Rightarrow> 'r returned option \<times> 'r executor \<times> world" where
  "future_result fut timeout ex w =
     (case timeout of
        None \<Rightarrow>
          (case finishes_in fut of
             None \<Rightarrow> (None, drain ex, w @ [FutureResult timeout])
           | Some c \<Rightarrow>
               (case work fut of
                  Never \<Rightarrow> (None, drain ex, w @ [FutureResult timeout])
                | Resolves d out \<Rightarrow>
                    (Some \<lparr>outcome = out, blocked_for = c\<rparr>, elapse c ex,
                     w @ [FutureResult timeout])))
      | Some tmo \<Rightarrow>
          (case finishes_in fut of
             None \<Rightarrow>
               (Some \<lparr>outcome = Inl TimeoutError, blocked_for = max 0 tmo\<rparr>,
                elapse (max 0 tmo) ex, w @ [FutureResult timeout])
           | Some c \<Rightarrow>
               (case work fut of
                  Never \<Rightarrow>
                    (Some \<lparr>outcome = Inl TimeoutError, blocked_for = max 0 tmo\<rparr>,
                     elapse (max 0 tmo) ex, w @ [FutureResult timeout])
                | Resolves d out \<Rightarrow>
                    (if c \<le> tmo
                     then (Some \<lparr>outcome = out, blocked_for = c\<rparr>, elapse c ex,
                           w @ [FutureResult timeout])
                     else (Some \<lparr>outcome = Inl TimeoutError, blocked_for = max 0 tmo\<rparr>,
                           elapse (max 0 tmo) ex, w @ [FutureResult timeout])))))"

text \<open>
  Modelled from the spec: the pool's shutdown of section 4.5,
  \<^verbatim>\<open>ThreadPoolExecutor.shutdown(wait)\<close>. The pool stops accepting tasks. With \<open>wait\<close> the
  caller is blocked until every task in flight has finished (none is cancelled), so
  the call never returns while a task never finishes; then the workers are released.
  Without \<open>wait\<close> the call returns at once and the tasks stay in flight.
\<close>

definition executor_shutdown ::
  "'r executor \<Rightarrow> bool \<Rightarrow> world \<Rightarrow> (pyexn + unit) option \<times> 'r executor \<times> world" where
  "executor_shutdown ex wait w =
     (if wait
      then (if list_all (\<lambda>j. finishes_in j \<noteq> None) (in_flight ex) then Some (Inr ()) else None,
            (drain ex)\<lparr>shut_down := True\<rparr>,
            w @ [ExecutorShutdown wait])
      else (Some (Inr ()), ex\<lparr>shut_down := True\<rparr>, w @ [ExecutorShutdown wait]))"

subsection \<open>\<^verbatim>\<open>ASGIRefBridge\<close>\<close>

text \<open>
  The instance: \<^verbatim>\<open>self._executor\<close>, \<^verbatim>\<open>self.isinparentloop\<close> and \<^verbatim>\<open>self.loop\<close>. The
  attribute \<^verbatim>\<open>loop\<close> exists only when the constructor created a loop.
\<close>

record 'r bridge =
  executor :: "'r executor"
  isinparentloop :: bool
  loop :: "loop option"

text \<open>
  \<^verbatim>\<open>isinloop\<close>: true when a loop is running on the calling thread; the
  \<^verbatim>\<open>RuntimeError\<close> of \<^verbatim>\<open>get_running_loop\<close> is caught and answered with false, any other
  exception passes.
\<close>

definition isinloop :: "loop option \<Rightarrow> pyexn + bool" where
  "isinloop ctx =
     (case get_running_loop ctx of
        Inr l \<Rightarrow> (if is_running l then Inr True else Inr False)
      | Inl e \<Rightarrow> (case e of RuntimeError m \<Rightarrow> Inr False | _ \<Rightarrow> Inl e))"

text \<open>
  \<^verbatim>\<open>__init__(max_workers)\<close>, called on a thread whose context is \<open>ctx\<close>: the executor
  first, then the context check, recorded in \<open>isinparentloop\<close>, and a new loop only when
  the check answered false.
\<close>

definition default_max_workers :: int where
  "default_max_workers = 1"

definition init :: "int \<Rightarrow> loop option \<Rightarrow> world \<Rightarrow> (pyexn + 'r bridge) \<times> world" where
  "init n ctx w =
     (case ThreadPoolExecutor n w of
        (Inl e, w1) \<Rightarrow> (Inl e, w1)
      | (Inr ex, w1) \<Rightarrow>
          (case isinloop ctx of
             Inl e \<Rightarrow> (Inl e, w1)
           | Inr inparent \<Rightarrow>
               (if \<not> inparent
                then (case new_event_loop w1 of
                        (l, w2) \<Rightarrow>
                          (Inr \<lparr>executor = ex, isinparentloop = inparent, loop = Some l\<rparr>,
                           set_event_loop l w2))
                else (Inr \<lparr>executor = ex, isinparentloop = inparent, loop = None\<rparr>, w1))))"

text \<open>
  \<^verbatim>\<open>run(async_fn, timeout)\<close>, called on a thread whose context is \<open>ctx\<close>, which \<open>run\<close>
  itself never looks at. With \<open>isinparentloop\<close> the operation goes to the executor and
  the caller waits on the future with the timeout; otherwise the instance's own loop
  drives it and the timeout is not used. Reading \<^verbatim>\<open>self.loop\<close> on an instance that has
  none raises \<^verbatim>\<open>AttributeError\<close>.
\<close>

definition run ::
  "'r bridge \<Rightarrow> loop option \<Rightarrow> 'r awaited \<Rightarrow> real option \<Rightarrow> world \<Rightarrow>
     'r returned option \<times> 'r bridge \<times> world" where
  "run self ctx async_fn timeout w =
     (if isinparentloop self
      then (case submit (executor self) (async_to_sync async_fn) w of
              (Inl e, ex, w1) \<Rightarrow>
                (Some \<lparr>outcome = Inl e, blocked_for = 0\<rparr>, self\<lparr>executor := ex\<rparr>, w1)
            | (Inr fut, ex, w1) \<Rightarrow>
                (case future_result fut timeout ex w1 of
                   (r, ex', w2) \<Rightarrow> (r, self\<lparr>executor := ex'\<rparr>, w2)))
      else (case loop self of
              None \<Rightarrow>
                (Some \<lparr>outcome = Inl (AttributeError ''loop''), blocked_for = 0\<rparr>, self, w)
            | Some l \<Rightarrow>
                (case run_until_complete l ctx async_fn w of
                   (r, w1) \<Rightarrow> (r, self, w1))))"

text \<open>\<^verbatim>\<open>shutdown()\<close>: \<^verbatim>\<open>self._executor.shutdown(wait=True)\<close>.\<close>

definition shutdown :: "'r bridge \<Rightarrow> world \<Rightarrow> (pyexn + unit) option \<times> 'r bridge \<times> world" where
  "shutdown self w =
     (case executor_shutdown (executor self) True w of
        (r, ex, w1) \<Rightarrow> (r, self\<lparr>executor := ex\<rparr>, w1))"

text \<open>
  The life of an instance after its construction: the calls made on it, in order, each
  from a thread in some context, and the time that passes between them. A call that
  never returns ends it, since the calls after it are never made.
\<close>

datatype 'r request = Run "loop option" "'r awaited" "real option" | Shutdown | Idle real

fun perform :: "'r bridge \<Rightarrow> world \<Rightarrow> 'r request list \<Rightarrow> 'r bridge \<times> world" where
  "perform self w [] = (self, w)"
| "perform self w (Run ctx f t # rs) =
     (case run self ctx f t w of
        (None, self', w') \<Rightarrow> (self', w')
      | (Some r, self', w') \<Rightarrow> perform self' w' rs)"
| "perform self w (Shutdown # rs) =
     (case shutdown self w of
        (None, self', w') \<Rightarrow> (self', w')
      | (Some r, self', w') \<Rightarrow> perform self' w' rs)"
| "perform self w (Idle dt # rs) =
     perform (self\<lparr>executor := elapse (max 0 dt) (executor self)\<rparr>) w rs"

section \<open>The client: \<^verbatim>\<open>openems/api.py\<close>\<close>

subsection \<open>Text of a value\<close>

text \<open>
  \<^verbatim>\<open>f'{x}'\<close> formats \<open>x\<close> as \<^verbatim>\<open>str(x)\<close>: an integer in decimal with its sign, a string as
  it is, \<^verbatim>\<open>None\<close> by its name.
\<close>

definition digit_char :: "nat \<Rightarrow> char" where
  "digit_char d = ''0123456789'' ! d"

function str_nat :: "nat \<Rightarrow> string" where
  "str_nat n = (if n < 10 then [digit_char n] else str_nat (n div 10) @ [digit_char (n mod 10)])"
  by pat_completeness auto
termination
  by (relation "measure id") auto

declare str_nat.simps [simp del]

fun py_str :: "pyval \<Rightarrow> string" where
  "py_str PyNone = ''None''"
| "py_str (PyInt i) = (if i < 0 then CHR ''-'' # str_nat (nat (- i)) else str_nat (nat i))"
| "py_str (PyStr s) = s"
| "py_str (PyOther s) = s"

subsection \<open>The connection and the remote side\<close>

text \<open>
  Modelled from the spec: the connection handle of section 5, a
  \<^verbatim>\<open>jsonrpc_websocket.Server\<close> object, which is not part of the repository: which one it
  is, its URL, its attribute \<^verbatim>\<open>connected\<close> (\<open>None\<close> when the object has no such attribute,
  as a stand-in object may), and whether the remote side has authenticated its session.
\<close>

record server_obj =
  sid :: nat
  url :: string
  connected :: "bool option"
  authenticated :: bool

text \<open>
  What awaiting a remote call gives: an answer, an exception, or nothing ever.
\<close>

datatype 'a answer = Answer 'a | Fails pyexn | Silent

text \<open>
  The remote side, as the replies it gives: to \<^verbatim>\<open>ws_connect\<close> for a URL, to
  \<^verbatim>\<open>authenticateWithPassword\<close> for a user name and password, and to \<^verbatim>\<open>getEdges\<close> for a
  page and a limit (the response is a dictionary from names to lists of edges).
\<close>

record 'e remote =
  ws_connect :: "string \<Rightarrow> unit answer"
  authenticateWithPassword :: "string \<Rightarrow> string \<Rightarrow> unit answer"
  getEdges :: "nat \<Rightarrow> nat \<Rightarrow> (string \<times> 'e list) list answer"

text \<open>
  The connections the client opened, oldest first: the objects it created and the calls
  it made to connect and to authenticate them.
\<close>

datatype conn_call = NewServer nat string | WsConnect nat | Authenticate nat string string

type_synonym conn_log = "conn_call list"

definition servers_created :: "conn_log \<Rightarrow> nat" where
  "servers_created net = length (filter (\<lambda>c. case c of NewServer i u \<Rightarrow> True | _ \<Rightarrow> False) net)"

text \<open>
  Modelled from the spec: the creation of a connection handle (section 5),
  \<^verbatim>\<open>Server(url)\<close>, which is not part of the repository: a new object, not connected yet.
\<close>

definition Server :: "string \<Rightarrow> conn_log \<Rightarrow> server_obj \<times> conn_log" where
  "Server u net =
     (let s = \<lparr>sid = servers_created net, url = u, connected = Some False, authenticated = False\<rparr>
      in (s, net @ [NewServer (sid s) u]))"

subsection \<open>\<^verbatim>\<open>OpenEMSAPIClient\<close>\<close>

record 'r client =
  server_url :: string
  username :: string
  password :: string
  self_server :: "server_obj option"
  self_bridge :: "'r bridge"

text \<open>
  \<^verbatim>\<open>__init__\<close>: the three settings, no connection (\<^verbatim>\<open>self._server = None\<close>) and a bridge
  of the default size.
\<close>

definition OpenEMSAPIClient ::
  "string \<Rightarrow> string \<Rightarrow> string \<Rightarrow> loop option \<Rightarrow> world \<Rightarrow> (pyexn + 'r client) \<times> world" where
  "OpenEMSAPIClient u name pw ctx w =
     (case init default_max_workers ctx w of
        (Inl e, w1) \<Rightarrow> (Inl e, w1)
      | (Inr b, w1) \<Rightarrow>
          (Inr \<lparr>server_url = u, username = name, password = pw, self_server = None, self_bridge = b\<rparr>, w1))"

text \<open>
  The handler every remote call of the file is wrapped in:
  \<^verbatim>\<open>except ProtocolError as e: if isinstance(e.args, tuple): raise APIError(message=f'{e.args[0]}: {e.args[1]}', code=e.args[0]); raise\<close>.
  The \<^verbatim>\<open>args\<close> of an exception are always a tuple. Building the message reads
  \<^verbatim>\<open>e.args[0]\<close> and \<^verbatim>\<open>e.args[1]\<close>, and a tuple too short for that raises \<^verbatim>\<open>IndexError\<close>.
  Any other exception is not caught.
\<close>

definition isinstance_tuple :: "pyval list \<Rightarrow> bool" where
  "isinstance_tuple args = True"

definition except_ProtocolError :: "pyexn \<Rightarrow> pyexn" where
  "except_ProtocolError e =
     (case e of
        ProtocolError args \<Rightarrow>
          (if isinstance_tuple args
           then (case args of
                   a0 # a1 # rest \<Rightarrow> APIError (py_str a0 @ '': '' @ py_str a1) a0
                 | _ \<Rightarrow> IndexError ''tuple index out of range'')
           else ProtocolError args)
      | _ \<Rightarrow> e)"

text \<open>
  \<^verbatim>\<open>login\<close>. The cached object is used when there is one, it has the attribute
  \<^verbatim>\<open>connected\<close>, and the attribute is true. Otherwise a new object is created, connected
  and authenticated, and only then stored. The function returns \<^verbatim>\<open>self._server\<close>. An
  object that \<^verbatim>\<open>ws_connect\<close> has connected reports itself connected, and one whose
  authentication was answered is authenticated on the remote side.
\<close>

definition login ::
  "'r client \<Rightarrow> 'e remote \<Rightarrow> conn_log \<Rightarrow> (pyexn + server_obj option) option \<times> 'r client \<times> conn_log" where
  "login self rem net =
     (if (case self_server self of
            None \<Rightarrow> True
          | Some s \<Rightarrow> (case connected s of None \<Rightarrow> True | Some c \<Rightarrow> \<not> c))
      then (case Server (server_url self) net of
              (server, net1) \<Rightarrow>
                (case ws_connect rem (url server) of
                   Silent \<Rightarrow> (None, self, net1 @ [WsConnect (sid server)])
                 | Fails e \<Rightarrow> (Some (Inl e), self, net1 @ [WsConnect (sid server)])
                 | Answer u \<Rightarrow>
                     (case authenticateWithPassword rem (username self) (password self) of
                        Silent \<Rightarrow>
                          (None, self,
                           net1 @ [WsConnect (sid server),
                                   Authenticate (sid server) (username self) (password self)])
                      | Fails e \<Rightarrow>
                          (Some (Inl (except_ProtocolError e)), self,
                           net1 @ [WsConnect (sid server),
                                   Authenticate (sid server) (username self) (password self)])
                      | Answer v \<Rightarrow>
                          (Some (Inr (Some (server\<lparr>connected := Some True, authenticated := True\<rparr>))),
                           self\<lparr>self_server := Some (server\<lparr>connected := Some True, authenticated := True\<rparr>)\<rparr>,
                           net1 @ [WsConnect (sid server),
                                   Authenticate (sid server) (username self) (password self)]))))
      else (Some (Inr (self_server self)), self, net))"

text \<open>
  The loop of \<^verbatim>\<open>get_edges\<close>: page after page until one is shorter than the limit. It
  never returns when a call is never answered, or when no page is ever short.
\<close>

partial_function (option) get_edges_pages ::
  "(nat \<Rightarrow> nat \<Rightarrow> (string \<times> 'e list) list answer) \<Rightarrow> nat \<Rightarrow> nat \<Rightarrow> 'e list \<Rightarrow> (pyexn + 'e list) option" where
  "get_edges_pages ge page limit edges =
     (case ge page limit of
        Silent \<Rightarrow> None
      | Fails e \<Rightarrow> Some (Inl (except_ProtocolError e))
      | Answer r \<Rightarrow>
          (case map_of r ''edges'' of
             None \<Rightarrow> Some (Inl (KeyError ''edges''))
           | Some es \<Rightarrow>
               (if length es < limit then Some (Inr (edges @ es))
                else get_edges_pages ge (page + 1) limit (edges @ es))))"

text \<open>The coroutine \<^verbatim>\<open>f\<close> of \<^verbatim>\<open>get_edges\<close>: log in, then read the pages.\<close>

definition get_edges_f ::
  "'r client \<Rightarrow> 'e remote \<Rightarrow> conn_log \<Rightarrow> (pyexn + 'e list) option \<times> 'r client \<times> conn_log" where
  "get_edges_f self rem net =
     (case login self rem net of
        (None, self1, net1) \<Rightarrow> (None, self1, net1)
      | (Some (Inl e), self1, net1) \<Rightarrow> (Some (Inl e), self1, net1)
      | (Some (Inr None), self1, net1) \<Rightarrow> (Some (Inl (AttributeError ''getEdges'')), self1, net1)
      | (Some (Inr (Some server)), self1, net1) \<Rightarrow>
          (get_edges_pages (getEdges rem) 0 100 [], self1, net1))"

text \<open>
  Whether \<open>run\<close>, called without a timeout on a thread whose context is \<open>ctx\<close>, gets the
  operation started: not when the pool refuses the task or never has a worker for it,
  and not when the own loop is missing or refuses to run inside a running loop.
\<close>

definition drives :: "'r bridge \<Rightarrow> loop option \<Rightarrow> bool" where
  "drives b ctx =
     (if isinparentloop b then \<not> shut_down (executor b) \<and> start_delay (executor b) \<noteq> None
      else loop b \<noteq> None \<and> ctx = None)"

text \<open>
  \<^verbatim>\<open>get_edges\<close>, called on a thread whose context is \<open>ctx\<close>:
  \<^verbatim>\<open>return self._bridge.run(f)\<close>, with no timeout. \<open>d\<close> is the time \<^verbatim>\<open>f\<close> takes when it
  resolves. The effects of \<^verbatim>\<open>f\<close> on the client happen when the bridge gets it started.
\<close>

definition get_edges ::
  "('e list) client \<Rightarrow> loop option \<Rightarrow> 'e remote \<Rightarrow> real \<Rightarrow> conn_log \<Rightarrow> world \<Rightarrow>
     ('e list) returned option \<times> ('e list) client \<times> conn_log \<times> world" where
  "get_edges self ctx rem d net w =
     (case get_edges_f self rem net of
        (reply, self1, net1) \<Rightarrow>
          (case run (self_bridge self) ctx
                  (case reply of None \<Rightarrow> Never | Some out \<Rightarrow> Resolves d out) None w of
             (r, b, w1) \<Rightarrow>
               (if drives (self_bridge self) ctx then (r, self1\<lparr>self_bridge := b\<rparr>, net1, w1)
                else (r, self\<lparr>self_bridge := b\<rparr>, net, w1))))"

section \<open>Routing\<close>

lemma isinloop_total: "isinloop ctx = Inr (case ctx of None \<Rightarrow> False | Some l \<Rightarrow> is_running l)"
  by (simp add: isinloop_def get_running_loop_def split: option.splits)

lemma init_Inr:
  assumes "init n ctx w0 = (Inr b, w1)"
  shows "0 < n"
    and "executor b = \<lparr>max_workers = n, shut_down = False, in_flight = [], settled = []\<rparr>"
    and "isinloop ctx = Inr (isinparentloop b)"
    and "isinparentloop b \<Longrightarrow> loop b = None \<and> w1 = w0 @ [NewExecutor n]"
    and "\<not> isinparentloop b \<Longrightarrow>
           loop b = Some \<lparr>loop_id = loops_created (w0 @ [NewExecutor n]), is_running = False\<rparr> \<and>
           w1 = w0 @ [NewExecutor n, NewEventLoop (loops_created (w0 @ [NewExecutor n])),
                      SetEventLoop (loops_created (w0 @ [NewExecutor n]))]"
  using assms
  by (auto simp: init_def ThreadPoolExecutor_def isinloop_total new_event_loop_def
      set_event_loop_def Let_def split: if_splits option.splits)

lemma future_result_world: "snd (snd (future_result fut t ex w)) = w @ [FutureResult t]"
  by (simp add: future_result_def split: option.splits awaited.splits)

lemma run_keeps_routing:
  assumes "run self ctx f t w = (r, self', w')"
  shows "isinparentloop self' = isinparentloop self \<and> loop self' = loop self"
  using assms
  by (auto simp: run_def split: if_splits option.splits prod.splits sum.splits)

lemma shutdown_keeps_routing:
  assumes "shutdown self w = (r, self', w')"
  shows "isinparentloop self' = isinparentloop self \<and> loop self' = loop self"
  using assms
  by (auto simp: shutdown_def split: prod.splits)

lemma perform_keeps_routing:
  "perform self w rs = (self', w') \<Longrightarrow>
     isinparentloop self' = isinparentloop self \<and> loop self' = loop self"
proof (induction self w rs rule: perform.induct)
  case (1 self w)
  then show ?case by simp
next
  case (2 self w ctx f t rs)
  obtain r s1 w1 where step: "run self ctx f t w = (r, s1, w1)"
    by (metis prod_cases3)
  show ?case
  proof (cases r)
    case None
    with 2 step run_keeps_routing [OF step] show ?thesis by simp
  next
    case (Some a)
    with 2 step run_keeps_routing [OF step] show ?thesis by simp
  qed
next
  case (3 self w rs)
  obtain r s1 w1 where step: "shutdown self w = (r, s1, w1)"
    by (metis prod_cases3)
  show ?case
  proof (cases r)
    case None
    with 3 step shutdown_keeps_routing [OF step] show ?thesis by simp
  next
    case (Some a)
    with 3 step shutdown_keeps_routing [OF step] show ?thesis by simp
  qed
next
  case (4 self w dt rs)
  then show ?case by simp
qed

lemma loops_created_append [simp]:
  "loops_created (w @ v) = loops_created w + loops_created v"
  by (simp add: loops_created_def)

lemma run_world:
  "snd (snd (run self ctx f t w)) =
     w @ (if isinparentloop self
          then (if shut_down (executor self) then [Submit] else [Submit, FutureResult t])
          else (case loop self of None \<Rightarrow> [] | Some l \<Rightarrow> [RunUntilComplete (loop_id l)]))"
proof (cases "isinparentloop self")
  case True
  show ?thesis
  proof (cases "shut_down (executor self)")
    case True
    with \<open>isinparentloop self\<close> show ?thesis by (simp add: run_def submit_def)
  next
    case False
    have "snd (snd (run self ctx f t w)) =
        snd (snd (future_result \<lparr>starts_in = start_delay (executor self), work = async_to_sync f\<rparr> t
          ((executor self)\<lparr>in_flight := in_flight (executor self) @
             [\<lparr>starts_in = start_delay (executor self), work = async_to_sync f\<rparr>]\<rparr>) (w @ [Submit])))"
      using True False by (simp add: run_def submit_def split: prod.splits)
    with True False show ?thesis by (simp add: future_result_world)
  qed
next
  case False
  then show ?thesis
    by (simp add: run_def run_until_complete_def split: option.splits awaited.splits)
qed

lemma shutdown_world: "snd (snd (shutdown self w)) = w @ [ExecutorShutdown True]"
  by (simp add: shutdown_def executor_shutdown_def split: prod.splits)

lemma perform_creates_no_loop:
  "perform self w rs = (self', w') \<Longrightarrow> loops_created w' = loops_created w"
proof (induction self w rs rule: perform.induct)
  case (1 self w)
  then show ?case by simp
next
  case (2 self w ctx f t rs)
  obtain r s1 w1 where step: "run self ctx f t w = (r, s1, w1)"
    by (metis prod_cases3)
  have "w1 = snd (snd (run self ctx f t w))"
    by (simp add: step)
  then have same: "loops_created w1 = loops_created w"
    unfolding run_world by (simp add: loops_created_def split: option.splits)
  show ?case
  proof (cases r)
    case None
    with 2 step same show ?thesis by simp
  next
    case (Some a)
    with 2 step same show ?thesis by simp
  qed
next
  case (3 self w rs)
  obtain r s1 w1 where step: "shutdown self w = (r, s1, w1)"
    by (metis prod_cases3)
  have "w1 = snd (snd (shutdown self w))"
    by (simp add: step)
  then have same: "loops_created w1 = loops_created w"
    unfolding shutdown_world by (simp add: loops_created_def)
  show ?case
  proof (cases r)
    case None
    with 3 step same show ?thesis by simp
  next
    case (Some a)
    with 3 step same show ?thesis by simp
  qed
next
  case (4 self w dt rs)
  then show ?case by simp
qed

text \<open>
  Claim C1. An instance is built on a thread whose context is \<open>ctx\<close> and then used in any
  way (\<open>perform\<close>). Every later call of \<open>run\<close>, from a thread in any context \<open>cx\<close>, takes
  exactly one path, fixed by what the context check answered at construction: when it
  answered false, the only library call is \<open>run_until_complete\<close> on the loop created at
  construction, and its reply is the caller's; when it answered true, the call begins
  with \<open>submit\<close> to the executor and, the task accepted, the caller waits on the future
  of that task with the given timeout.
\<close>

theorem run_routes_by_construction_check:
  assumes "init n ctx w0 = (Inr b0, w1)" and "perform b0 w1 rs = (b, w)"
  shows "isinloop ctx = Inr (isinparentloop b) \<and>
    (isinloop ctx = Inr False \<longrightarrow>
       (\<exists>l. loop b0 = Some l \<and> loop b = Some l \<and> NewEventLoop (loop_id l) \<in> set w1 \<and>
            fst (run b cx f t w) = fst (run_until_complete l cx f w) \<and>
            snd (snd (run b cx f t w)) = w @ [RunUntilComplete (loop_id l)])) \<and>
    (isinloop ctx = Inr True \<longrightarrow>
       snd (snd (run b cx f t w)) =
         w @ (if shut_down (executor b) then [Submit] else [Submit, FutureResult t]) \<and>
       (\<not> shut_down (executor b) \<longrightarrow>
          fst (run b cx f t w) =
            fst (future_result \<lparr>starts_in = start_delay (executor b), work = async_to_sync f\<rparr> t
                  (fst (snd (submit (executor b) (async_to_sync f) w))) (w @ [Submit]))))"
proof -
  have keep: "isinparentloop b = isinparentloop b0" "loop b = loop b0"
    using perform_keeps_routing [OF assms(2)] by simp_all
  have chk: "isinloop ctx = Inr (isinparentloop b)"
    using init_Inr(3) [OF assms(1)] keep by simp
  have own: "isinloop ctx = Inr False \<longrightarrow>
       (\<exists>l. loop b0 = Some l \<and> loop b = Some l \<and> NewEventLoop (loop_id l) \<in> set w1 \<and>
            fst (run b cx f t w) = fst (run_until_complete l cx f w) \<and>
            snd (snd (run b cx f t w)) = w @ [RunUntilComplete (loop_id l)])"
  proof
    assume "isinloop ctx = Inr False"
    with chk keep have no: "\<not> isinparentloop b0" "\<not> isinparentloop b" by simp_all
    let ?l = "\<lparr>loop_id = loops_created (w0 @ [NewExecutor n]), is_running = False\<rparr>"
    from init_Inr(5) [OF assms(1) no(1)]
    have l0: "loop b0 = Some ?l" and in_w1: "NewEventLoop (loop_id ?l) \<in> set w1" by simp_all
    from l0 keep have l: "loop b = Some ?l" by simp
    have "fst (run b cx f t w) = fst (run_until_complete ?l cx f w)"
      using no(2) l by (simp add: run_def split: prod.splits)
    moreover have "snd (snd (run b cx f t w)) = w @ [RunUntilComplete (loop_id ?l)]"
      unfolding run_world using no(2) l by simp
    ultimately show "\<exists>l. loop b0 = Some l \<and> loop b = Some l \<and> NewEventLoop (loop_id l) \<in> set w1 \<and>
            fst (run b cx f t w) = fst (run_until_complete l cx f w) \<and>
            snd (snd (run b cx f t w)) = w @ [RunUntilComplete (loop_id l)]"
      using l0 l in_w1 by blast
  qed
  have pool: "isinloop ctx = Inr True \<longrightarrow>
       snd (snd (run b cx f t w)) =
         w @ (if shut_down (executor b) then [Submit] else [Submit, FutureResult t]) \<and>
       (\<not> shut_down (executor b) \<longrightarrow>
          fst (run b cx f t w) =
            fst (future_result \<lparr>starts_in = start_delay (executor b), work = async_to_sync f\<rparr> t
                  (fst (snd (submit (executor b) (async_to_sync f) w))) (w @ [Submit])))"
  proof
    assume "isinloop ctx = Inr True"
    with chk have yes: "isinparentloop b" by simp
    have "snd (snd (run b cx f t w)) =
         w @ (if shut_down (executor b) then [Submit] else [Submit, FutureResult t])"
      unfolding run_world using yes by simp
    moreover have "\<not> shut_down (executor b) \<longrightarrow>
          fst (run b cx f t w) =
            fst (future_result \<lparr>starts_in = start_delay (executor b), work = async_to_sync f\<rparr> t
                  (fst (snd (submit (executor b) (async_to_sync f) w))) (w @ [Submit]))"
      using yes by (simp add: run_def submit_def split: prod.splits)
    ultimately show "snd (snd (run b cx f t w)) =
         w @ (if shut_down (executor b) then [Submit] else [Submit, FutureResult t]) \<and>
       (\<not> shut_down (executor b) \<longrightarrow>
          fst (run b cx f t w) =
            fst (future_result \<lparr>starts_in = start_delay (executor b), work = async_to_sync f\<rparr> t
                  (fst (snd (submit (executor b) (async_to_sync f) w))) (w @ [Submit])))"
      by simp
  qed
  from chk own pool show ?thesis by blast
qed

text \<open>
  The routing theorem at two instances of the default size: one built outside any
  running loop and called from inside one, one built inside a running loop and called
  from outside.
\<close>

theorem run_routes_by_construction_check_witness:
  "(init 1 None [] :: (pyexn + int bridge) \<times> world) =
     (Inr \<lparr>executor = \<lparr>max_workers = 1, shut_down = False, in_flight = [], settled = []\<rparr>,
           isinparentloop = False, loop = Some \<lparr>loop_id = 0, is_running = False\<rparr>\<rparr>,
      [NewExecutor 1, NewEventLoop 0, SetEventLoop 0]) \<and>
   snd (snd (run \<lparr>executor = \<lparr>max_workers = 1, shut_down = False, in_flight = [], settled = []\<rparr>,
           isinparentloop = False, loop = Some \<lparr>loop_id = 0, is_running = False\<rparr>\<rparr>
         (Some \<lparr>loop_id = 7, is_running = True\<rparr>)
         (Resolves 2 (Inr (42::int))) (Some 1) [NewExecutor 1, NewEventLoop 0, SetEventLoop 0])) =
     [NewExecutor 1, NewEventLoop 0, SetEventLoop 0, RunUntilComplete 0] \<and>
   (init 1 (Some \<lparr>loop_id = 7, is_running = True\<rparr>) [] :: (pyexn + int bridge) \<times> world) =
     (Inr \<lparr>executor = \<lparr>max_workers = 1, shut_down = False, in_flight = [], settled = []\<rparr>,
           isinparentloop = True, loop = None\<rparr>,
      [NewExecutor 1]) \<and>
   snd (snd (run \<lparr>executor = \<lparr>max_workers = 1, shut_down = False, in_flight = [], settled = []\<rparr>,
           isinparentloop = True, loop = None\<rparr>
         None
         (Resolves 2 (Inr (42::int))) (Some 1) [NewExecutor 1])) =
     [NewExecutor 1, Submit, FutureResult (Some 1)]"
proof -
  let ?own = "\<lparr>executor = \<lparr>max_workers = 1, shut_down = False, in_flight = [], settled = []\<rparr>,
           isinparentloop = False, loop = Some \<lparr>loop_id = 0, is_running = False\<rparr>\<rparr> :: int bridge"
  let ?pool = "\<lparr>executor = \<lparr>max_workers = 1, shut_down = False, in_flight = [], settled = []\<rparr>,
           isinparentloop = True, loop = None\<rparr> :: int bridge"
  have i1: "init 1 None [] = (Inr ?own, [NewExecutor 1, NewEventLoop 0, SetEventLoop 0])"
    by (simp add: init_def ThreadPoolExecutor_def isinloop_def get_running_loop_def
        new_event_loop_def set_event_loop_def loops_created_def)
  have p1: "perform ?own [NewExecutor 1, NewEventLoop 0, SetEventLoop 0] [] =
      (?own, [NewExecutor 1, NewEventLoop 0, SetEventLoop 0])"
    by simp
  have i2: "init 1 (Some \<lparr>loop_id = 7, is_running = True\<rparr>) [] = (Inr ?pool, [NewExecutor 1])"
    by (simp add: init_def ThreadPoolExecutor_def isinloop_def get_running_loop_def)
  have p2: "perform ?pool [NewExecutor 1] [] = (?pool, [NewExecutor 1])"
    by simp
  have c1: "isinloop None = Inr False"
    by (simp add: isinloop_def get_running_loop_def)
  have c2: "isinloop (Some \<lparr>loop_id = 7, is_running = True\<rparr>) = Inr True"
    by (simp add: isinloop_def get_running_loop_def)
  from run_routes_by_construction_check
    [OF i1 p1, where cx = "Some \<lparr>loop_id = 7, is_running = True\<rparr>"
       and f = "Resolves 2 (Inr 42)" and t = "Some 1"] c1
  have r1: "snd (snd (run ?own (Some \<lparr>loop_id = 7, is_running = True\<rparr>) (Resolves 2 (Inr 42)) (Some 1)
        [NewExecutor 1, NewEventLoop 0, SetEventLoop 0])) =
     [NewExecutor 1, NewEventLoop 0, SetEventLoop 0, RunUntilComplete 0]"
    by simp
  from run_routes_by_construction_check
    [OF i2 p2, where cx = None and f = "Resolves 2 (Inr 42)" and t = "Some 1"] c2
  have r2: "snd (snd (run ?pool None (Resolves 2 (Inr 42)) (Some 1) [NewExecutor 1])) =
     [NewExecutor 1, Submit, FutureResult (Some 1)]"
    by simp
  from i1 r1 i2 r2 show ?thesis by simp
qed

text \<open>
  Claim C5. The constructor creates one loop when the context check answered false and
  none when it answered true; whatever calls follow (\<open>run\<close>, \<open>shutdown\<close>, in any number
  and order, with any time between them), no further loop is created and the
  instance's \<open>loop\<close> stays what the constructor made it. So an instance owns zero or one
  loop for its whole life. (The private loops of the pool's workers are made inside the
  library and are not the instance's.)
\<close>

theorem owned_loop_created_at_most_once:
  assumes "init n ctx w0 = (Inr b0, w1)" and "perform b0 w1 rs = (b, w)"
  shows "loops_created w1 = loops_created w0 + (if isinloop ctx = Inr False then 1 else 0) \<and>
         loops_created w = loops_created w1 \<and>
         loop b = loop b0 \<and>
         (loop b0 = None) = (isinloop ctx = Inr True) \<and>
         loops_created w \<le> loops_created w0 + 1"
proof -
  have later: "loops_created w = loops_created w1"
    using perform_creates_no_loop [OF assms(2)] .
  have keep: "loop b = loop b0"
    using perform_keeps_routing [OF assms(2)] by simp
  have chk: "isinloop ctx = Inr (isinparentloop b0)"
    using init_Inr(3) [OF assms(1)] .
  show ?thesis
  proof (cases "isinparentloop b0")
    case True
    with init_Inr(4) [OF assms(1)] chk later keep show ?thesis
      by (simp add: loops_created_def)
  next
    case False
    with init_Inr(5) [OF assms(1)] chk later keep show ?thesis
      by (simp add: loops_created_def)
  qed
qed

text \<open>
  The theorem at an instance built outside any running loop, after a run, a pause, a
  shutdown and another run.
\<close>

theorem owned_loop_created_at_most_once_witness:
  "(init 1 None [] :: (pyexn + int bridge) \<times> world) =
     (Inr \<lparr>executor = \<lparr>max_workers = 1, shut_down = False, in_flight = [], settled = []\<rparr>,
           isinparentloop = False, loop = Some \<lparr>loop_id = 0, is_running = False\<rparr>\<rparr>,
      [NewExecutor 1, NewEventLoop 0, SetEventLoop 0]) \<and>
   perform \<lparr>executor = \<lparr>max_workers = 1, shut_down = False, in_flight = [], settled = []\<rparr>,
           isinparentloop = False, loop = Some \<lparr>loop_id = 0, is_running = False\<rparr>\<rparr>
      [NewExecutor 1, NewEventLoop 0, SetEventLoop 0]
      [Run None (Resolves 2 (Inr (42::int))) None, Idle 3, Shutdown,
       Run None (Resolves 1 (Inl TimeoutError)) (Some 3)] =
     (\<lparr>executor = \<lparr>max_workers = 1, shut_down = True, in_flight = [], settled = []\<rparr>,
           isinparentloop = False, loop = Some \<lparr>loop_id = 0, is_running = False\<rparr>\<rparr>,
      [NewExecutor 1, NewEventLoop 0, SetEventLoop 0, RunUntilComplete 0, ExecutorShutdown True,
       RunUntilComplete 0]) \<and>
   loops_created [NewExecutor 1, NewEventLoop 0, SetEventLoop 0, RunUntilComplete 0,
       ExecutorShutdown True, RunUntilComplete 0] = loops_created [] + 1"
proof -
  let ?own = "\<lparr>executor = \<lparr>max_workers = 1, shut_down = False, in_flight = [], settled = []\<rparr>,
           isinparentloop = False, loop = Some \<lparr>loop_id = 0, is_running = False\<rparr>\<rparr> :: int bridge"
  have i1: "init 1 None [] = (Inr ?own, [NewExecutor 1, NewEventLoop 0, SetEventLoop 0])"
    by (simp add: init_def ThreadPoolExecutor_def isinloop_def get_running_loop_def
        new_event_loop_def set_event_loop_def loops_created_def)
  have p1: "perform ?own [NewExecutor 1, NewEventLoop 0, SetEventLoop 0]
      [Run None (Resolves 2 (Inr 42)) None, Idle 3, Shutdown,
       Run None (Resolves 1 (Inl TimeoutError)) (Some 3)] =
     (\<lparr>executor = \<lparr>max_workers = 1, shut_down = True, in_flight = [], settled = []\<rparr>,
           isinparentloop = False, loop = Some \<lparr>loop_id = 0, is_running = False\<rparr>\<rparr>,
      [NewExecutor 1, NewEventLoop 0, SetEventLoop 0, RunUntilComplete 0, ExecutorShutdown True,
       RunUntilComplete 0])"
    by (simp add: run_def run_until_complete_def shutdown_def executor_shutdown_def
        elapse_def drain_def outcomes_def List.map_filter_simps)
  have c1: "isinloop None = Inr False"
    by (simp add: isinloop_def get_running_loop_def)
  from owned_loop_created_at_most_once [OF i1 p1] c1
  have "loops_created [NewExecutor 1, NewEventLoop 0, SetEventLoop 0, RunUntilComplete 0,
       ExecutorShutdown True, RunUntilComplete 0] = loops_created [] + 1"
    by simp
  with i1 p1 show ?thesis by simp
qed

section \<open>The order of the tasks in the pool\<close>

lemma finishes_in_later:
  "finishes_in (later dt j) = map_option (\<lambda>c. c - dt) (finishes_in j)"
  by (simp add: finishes_in_def later_def split: option.splits awaited.splits)

lemma work_later [simp]: "work (later dt j) = work j"
  by (simp add: later_def)

lemma finishes_in_new_job:
  "finishes_in \<lparr>starts_in = Some s, work = Resolves d out\<rparr> = Some (s + d)"
  "finishes_in \<lparr>starts_in = None, work = f\<rparr> = None"
  "finishes_in \<lparr>starts_in = q, work = Never\<rparr> = None"
  by (simp_all add: finishes_in_def split: option.splits)

lemma start_delay_nonneg: "start_delay ex = Some s \<Longrightarrow> 0 \<le> s"
  by (auto simp: start_delay_def Let_def split: if_splits)

lemma length_map_filter_le: "length (List.map_filter f xs) \<le> length xs"
  by (induction xs) (auto simp: List.map_filter_simps split: option.splits)

lemma length_map_filter_full:
  "length (List.map_filter f xs) = length xs \<Longrightarrow> x \<in> set xs \<Longrightarrow> f x \<noteq> None"
proof (induction xs)
  case Nil
  then show ?case by simp
next
  case (Cons a xs)
  have le: "length (List.map_filter f xs) \<le> length xs"
    by (rule length_map_filter_le)
  show ?case
  proof (cases "f a")
    case None
    with Cons.prems(1) le show ?thesis by (simp add: List.map_filter_simps)
  next
    case (Some y)
    with Cons show ?thesis by (auto simp: List.map_filter_simps)
  qed
qed

lemma set_map_filter: "set (List.map_filter f xs) = {y. \<exists>x \<in> set xs. f x = Some y}"
  by (induction xs) (auto simp: List.map_filter_simps split: option.splits)

lemma sorted_le_last:
  fixes xs :: "real list"
  assumes "sorted xs" and "x \<in> set xs"
  shows "x \<le> xs ! (length xs - 1)"
proof -
  from assms(2) obtain i where i: "i < length xs" "xs ! i = x"
    by (auto simp: in_set_conv_nth)
  then have "i \<le> length xs - 1" by simp
  with assms(1) i show ?thesis
    using sorted_nth_mono [of xs i "length xs - 1"] by simp
qed

lemma start_delay_single:
  assumes "max_workers ex = 1" and "start_delay ex = Some s" and "j \<in> set (in_flight ex)"
  shows "\<exists>c. finishes_in j = Some c \<and> c \<le> s"
proof -
  let ?js = "in_flight ex"
  let ?fs = "sort (List.map_filter finishes_in ?js)"
  from assms(3) have pos: "0 < length ?js" by (cases ?js) auto
  then have m: "\<not> int (length ?js) - max_workers ex < 0"
    using assms(1) by simp
  have idx: "nat (int (length ?js) - max_workers ex) = length ?js - 1"
    using assms(1) by simp
  from assms(2) m idx have lt: "length ?js - 1 < length ?fs"
    and s: "s = max 0 (?fs ! (length ?js - 1))"
    by (auto simp: start_delay_def Let_def split: if_splits)
  have "length ?fs \<le> length ?js"
    by (simp add: length_map_filter_le)
  with lt pos have full: "length (List.map_filter finishes_in ?js) = length ?js"
    by simp
  from length_map_filter_full [OF full assms(3)]
  obtain c where c: "finishes_in j = Some c" by auto
  with assms(3) have "c \<in> set ?fs"
    by (auto simp: set_map_filter)
  then have "c \<le> ?fs ! (length ?fs - 1)"
    by (intro sorted_le_last) simp_all
  moreover have "length ?fs = length ?js" using full by simp
  ultimately have "c \<le> s" using s by simp
  with c show ?thesis by blast
qed

lemma in_flight_elapse:
  "set (in_flight (elapse dt ex)) = {later dt j | j. j \<in> set (in_flight ex) \<and> \<not> finished (later dt j)}"
  by (auto simp: elapse_def)

lemma max_workers_elapse [simp]: "max_workers (elapse dt ex) = max_workers ex"
  and shut_down_elapse [simp]: "shut_down (elapse dt ex) = shut_down ex"
  by (simp_all add: elapse_def)

lemma set_outcomes: "set (outcomes js) = {y. \<exists>j \<in> set js. resolution (work j) = Some y}"
  by (simp add: outcomes_def set_map_filter)

lemma outcomes_Nil [simp]: "outcomes [] = []"
  by (simp add: outcomes_def List.map_filter_simps)

lemma outcomes_single [simp]: "outcomes [j] = (case resolution (work j) of None \<Rightarrow> [] | Some y \<Rightarrow> [y])"
  by (simp add: outcomes_def List.map_filter_simps split: option.splits)

lemma run_pool:
  assumes "isinparentloop b" and "\<not> shut_down (executor b)"
  shows "run b cx f t w =
     (fst (future_result \<lparr>starts_in = start_delay (executor b), work = f\<rparr> t
            ((executor b)\<lparr>in_flight := in_flight (executor b) @
               [\<lparr>starts_in = start_delay (executor b), work = f\<rparr>]\<rparr>) (w @ [Submit])),
      b\<lparr>executor := fst (snd (future_result \<lparr>starts_in = start_delay (executor b), work = f\<rparr> t
            ((executor b)\<lparr>in_flight := in_flight (executor b) @
               [\<lparr>starts_in = start_delay (executor b), work = f\<rparr>]\<rparr>) (w @ [Submit])))\<rparr>,
      w @ [Submit, FutureResult t])"
proof -
  let ?job = "\<lparr>starts_in = start_delay (executor b), work = f\<rparr>"
  let ?ex = "(executor b)\<lparr>in_flight := in_flight (executor b) @ [?job]\<rparr>"
  obtain r ex' w2 where fr: "future_result ?job t ?ex (w @ [Submit]) = (r, ex', w2)"
    by (metis prod_cases3)
  have "w2 = snd (snd (future_result ?job t ?ex (w @ [Submit])))"
    by (simp add: fr)
  then have w2: "w2 = w @ [Submit, FutureResult t]"
    by (simp add: future_result_world)
  have "run b cx f t w = (r, b\<lparr>executor := ex'\<rparr>, w2)"
    using assms fr by (simp add: run_def submit_def async_to_sync_def)
  with fr w2 show ?thesis by simp
qed

lemma wait_in_time:
  assumes "finishes_in fut = Some c" and "work fut = Resolves d out"
    and "case t of None \<Rightarrow> True | Some tmo \<Rightarrow> c \<le> tmo"
  shows "future_result fut t ex w =
     (Some \<lparr>outcome = out, blocked_for = c\<rparr>, elapse c ex, w @ [FutureResult t])"
  using assms by (simp add: future_result_def split: option.splits)

lemma wait_late:
  assumes "case finishes_in fut of None \<Rightarrow> True | Some c \<Rightarrow> tmo < c"
  shows "future_result fut (Some tmo) ex w =
     (Some \<lparr>outcome = Inl TimeoutError, blocked_for = max 0 tmo\<rparr>, elapse (max 0 tmo) ex,
      w @ [FutureResult (Some tmo)])"
  using assms by (simp add: future_result_def split: option.splits awaited.splits)

lemma wait_for_ever:
  assumes "finishes_in fut = None"
  shows "future_result fut None ex w = (None, drain ex, w @ [FutureResult None])"
  using assms by (simp add: future_result_def)

lemma wait_bounded:
  "\<exists>r. fst (future_result fut (Some tmo) ex w) = Some r \<and> blocked_for r \<le> max 0 tmo"
  by (auto simp: future_result_def split: option.splits awaited.splits)

text \<open>
  Claim C6. A pool of size one, in any state. An operation \<open>A\<close> is submitted, and after
  any time \<open>dt\<close> (none, when two callers race and their submissions arrive one after the
  other) an operation \<open>B\<close>. Then \<open>A\<close> is queued in front of \<open>B\<close>, and \<open>B\<close>'s task begins
  only if \<open>A\<close>'s task has a beginning and an end, and not before that end: \<open>fA - dt\<close> is
  the end of \<open>A\<close> and \<open>sB\<close> the beginning of \<open>B\<close>, both counted from the submission of \<open>B\<close>.
  The two never overlap, and while \<open>A\<close> never ends \<open>B\<close> never begins. \<open>run\<close> on the pool
  path hands its operation to this \<open>submit\<close>, and its caller sees the order:
  an operation run next on this pool, without a timeout, begins when every task in
  flight has ended (\<open>s\<close> seconds from now) and its caller is answered \<open>d\<close> seconds after
  that.
\<close>

theorem single_worker_runs_in_submission_order:
  assumes "max_workers ex = 1"
    and "submit ex A w = (Inr jA, ex1, w1)"
    and "submit (elapse dt ex1) B w1 = (Inr jB, ex2, w2)"
  shows "jA \<in> set (in_flight ex1) \<and>
         starts_in jA = start_delay ex \<and> work jA = A \<and>
         starts_in jB = start_delay (elapse dt ex1) \<and> work jB = B \<and>
         (\<forall>sB. starts_in jB = Some sB \<longrightarrow>
            0 \<le> sB \<and>
            (\<exists>sA fA. starts_in jA = Some sA \<and> finishes_in jA = Some fA \<and> fA - dt \<le> sB)) \<and>
         (isinparentloop b \<and> executor b = ex2 \<and> start_delay ex2 = Some s \<longrightarrow>
            (\<forall>j \<in> set (in_flight ex2). \<exists>c. finishes_in j = Some c \<and> c \<le> s) \<and>
            fst (run b cx (Resolves d out) None w) = Some \<lparr>outcome = out, blocked_for = s + d\<rparr>)"
proof -
  from assms(2) have open1: "\<not> shut_down ex"
    and jA: "jA = \<lparr>starts_in = start_delay ex, work = A\<rparr>"
    and ex1: "ex1 = ex\<lparr>in_flight := in_flight ex @ [jA]\<rparr>"
    by (auto simp: submit_def split: if_splits)
  from assms(3) have jB: "jB = \<lparr>starts_in = start_delay (elapse dt ex1), work = B\<rparr>"
    by (auto simp: submit_def split: if_splits)
  have one: "max_workers (elapse dt ex1) = 1"
    using assms(1) ex1 by simp
  have queued: "jA \<in> set (in_flight ex1)"
    using ex1 by simp
  have order: "\<forall>sB. starts_in jB = Some sB \<longrightarrow>
            0 \<le> sB \<and>
            (\<exists>sA fA. starts_in jA = Some sA \<and> finishes_in jA = Some fA \<and> fA - dt \<le> sB)"
  proof (intro allI impI)
    fix sB
    assume "starts_in jB = Some sB"
    with jB have sd: "start_delay (elapse dt ex1) = Some sB" by simp
    then have nonneg: "0 \<le> sB" by (rule start_delay_nonneg)
    have "\<exists>fA. finishes_in jA = Some fA \<and> fA - dt \<le> sB"
    proof (cases "finished (later dt jA)")
      case True
      then obtain c where "finishes_in (later dt jA) = Some c" "c \<le> 0"
        by (auto simp: finished_def split: option.splits)
      then obtain fA where "finishes_in jA = Some fA" "fA - dt \<le> 0"
        by (auto simp: finishes_in_later)
      with nonneg show ?thesis by auto
    next
      case False
      with queued have "later dt jA \<in> set (in_flight (elapse dt ex1))"
        by (auto simp: in_flight_elapse)
      from start_delay_single [OF one sd this]
      obtain c where "finishes_in (later dt jA) = Some c" "c \<le> sB" by blast
      then show ?thesis by (auto simp: finishes_in_later)
    qed
    then obtain fA where fA: "finishes_in jA = Some fA" "fA - dt \<le> sB" by blast
    then obtain sA where "starts_in jA = Some sA"
      by (auto simp: finishes_in_def split: option.splits)
    with fA nonneg show "0 \<le> sB \<and>
            (\<exists>sA fA. starts_in jA = Some sA \<and> finishes_in jA = Some fA \<and> fA - dt \<le> sB)"
      by blast
  qed
  have third: "isinparentloop b \<and> executor b = ex2 \<and> start_delay ex2 = Some s \<longrightarrow>
            (\<forall>j \<in> set (in_flight ex2). \<exists>c. finishes_in j = Some c \<and> c \<le> s) \<and>
            fst (run b cx (Resolves d out) None w) = Some \<lparr>outcome = out, blocked_for = s + d\<rparr>"
  proof
    assume h: "isinparentloop b \<and> executor b = ex2 \<and> start_delay ex2 = Some s"
    then have yes: "isinparentloop b" and ex2: "executor b = ex2"
      and s: "start_delay (executor b) = Some s" by simp_all
    from assms(3) have "ex2 = (elapse dt ex1)\<lparr>in_flight := in_flight (elapse dt ex1) @ [jB]\<rparr>"
      and "\<not> shut_down (elapse dt ex1)"
      by (auto simp: submit_def split: if_splits)
    then have acc: "\<not> shut_down (executor b)" and one2: "max_workers (executor b) = 1"
      using ex2 one by simp_all
    have before: "\<forall>j \<in> set (in_flight ex2). \<exists>c. finishes_in j = Some c \<and> c \<le> s"
      using start_delay_single [OF one2 s] ex2 by simp
    have "fst (run b cx (Resolves d out) None w) = Some \<lparr>outcome = out, blocked_for = s + d\<rparr>"
      unfolding run_pool [OF yes acc] s
      by (simp add: wait_in_time finishes_in_new_job)
    with before show "(\<forall>j \<in> set (in_flight ex2). \<exists>c. finishes_in j = Some c \<and> c \<le> s) \<and>
            fst (run b cx (Resolves d out) None w) = Some \<lparr>outcome = out, blocked_for = s + d\<rparr>"
      by simp
  qed
  from queued jA jB order third show ?thesis by simp
qed

text \<open>
  The theorem at an idle pool of size one: \<open>A\<close> takes five seconds, \<open>B\<close> is submitted one
  second later and begins four seconds after its submission, when \<open>A\<close> ends.
\<close>

theorem single_worker_runs_in_submission_order_witness:
  "submit (\<lparr>max_workers = 1, shut_down = False, in_flight = [], settled = []\<rparr> :: int executor)
     (Resolves 5 (Inr 1)) [] =
     (Inr \<lparr>starts_in = Some 0, work = Resolves 5 (Inr 1)\<rparr>,
      \<lparr>max_workers = 1, shut_down = False,
        in_flight = [\<lparr>starts_in = Some 0, work = Resolves 5 (Inr 1)\<rparr>], settled = []\<rparr>,
      [Submit]) \<and>
   submit (elapse 1 (\<lparr>max_workers = 1, shut_down = False,
        in_flight = [\<lparr>starts_in = Some 0, work = Resolves 5 (Inr 1)\<rparr>], settled = []\<rparr> :: int executor))
     (Resolves 2 (Inr 2)) [Submit] =
     (Inr \<lparr>starts_in = Some 4, work = Resolves 2 (Inr 2)\<rparr>,
      \<lparr>max_workers = 1, shut_down = False,
        in_flight = [\<lparr>starts_in = Some (- 1), work = Resolves 5 (Inr 1)\<rparr>,
                     \<lparr>starts_in = Some 4, work = Resolves 2 (Inr 2)\<rparr>], settled = []\<rparr>,
      [Submit, Submit]) \<and>
   (\<exists>sA fA. starts_in (\<lparr>starts_in = Some 0, work = Resolves 5 (Inr 1)\<rparr> :: int job) = Some sA \<and>
      finishes_in (\<lparr>starts_in = Some 0, work = Resolves 5 (Inr 1)\<rparr> :: int job) = Some fA \<and>
      fA - 1 \<le> 4)"
proof -
  let ?ex = "\<lparr>max_workers = 1, shut_down = False, in_flight = [], settled = []\<rparr> :: int executor"
  let ?jA = "\<lparr>starts_in = Some 0, work = Resolves 5 (Inr 1)\<rparr> :: int job"
  let ?ex1 = "\<lparr>max_workers = 1, shut_down = False, in_flight = [?jA], settled = []\<rparr> :: int executor"
  let ?jB = "\<lparr>starts_in = Some 4, work = Resolves 2 (Inr 2)\<rparr> :: int job"
  let ?ex2 = "\<lparr>max_workers = 1, shut_down = False,
        in_flight = [\<lparr>starts_in = Some (- 1), work = Resolves 5 (Inr 1)\<rparr>, ?jB], settled = []\<rparr> :: int executor"
  have one: "max_workers ?ex = 1" by simp
  have first: "submit ?ex (Resolves 5 (Inr 1)) [] = (Inr ?jA, ?ex1, [Submit])"
    by (simp add: submit_def start_delay_def)
  have second: "submit (elapse 1 ?ex1) (Resolves 2 (Inr 2)) [Submit] = (Inr ?jB, ?ex2, [Submit, Submit])"
    by (simp add: submit_def start_delay_def elapse_def later_def finished_def finishes_in_def
        List.map_filter_simps)
  have begins: "starts_in ?jB = Some 4" by simp
  note order = single_worker_runs_in_submission_order
    [OF one first second, THEN conjunct2, THEN conjunct2, THEN conjunct2, THEN conjunct2,
      THEN conjunct2, THEN conjunct1, THEN spec, THEN mp, OF begins, THEN conjunct2]
  from order
  have "\<exists>sA fA. starts_in ?jA = Some sA \<and> finishes_in ?jA = Some fA \<and> fA - 1 \<le> 4" .
  with first second show ?thesis by simp
qed

section \<open>Results, failures and timeouts\<close>

text \<open>
  Claim C3. \<open>run\<close> takes a timeout on both paths and uses it on the pool path only. On
  the instance's own loop the whole result of \<open>run\<close> (reply, instance, library calls)
  is the same for any two timeouts, and a caller outside any running loop is blocked
  until the operation resolves, for ever when it never does. On the pool path the
  timeout is handed to the wait on the future and decides the reply: the task finishes
  \<open>s + d\<close> seconds after its submission (\<open>s\<close> for the tasks before it, \<open>d\<close> for itself), and
  the caller gets its outcome after that time when it is within the timeout, and
  \<^verbatim>\<open>TimeoutError\<close> after the timeout otherwise; a task that never finishes gives
  \<^verbatim>\<open>TimeoutError\<close> with a timeout and blocks for ever without one. A call with a timeout
  always returns, after no longer than the timeout.
\<close>

theorem timeout_honoured_only_on_pool_path:
  "(\<not> isinparentloop b \<longrightarrow> run b cx f t1 w = run b cx f t2 w) \<and>
   (\<not> isinparentloop b \<and> loop b = Some l \<and> cx = None \<longrightarrow>
      fst (run b cx f t w) =
        (case f of Never \<Rightarrow> None | Resolves d out \<Rightarrow> Some \<lparr>outcome = out, blocked_for = d\<rparr>)) \<and>
   (isinparentloop b \<longrightarrow>
      (\<exists>r. fst (run b cx f (Some tmo) w) = Some r \<and> blocked_for r \<le> max 0 tmo) \<and>
      (\<not> shut_down (executor b) \<longrightarrow> last (snd (snd (run b cx f (Some tmo) w))) = FutureResult (Some tmo))) \<and>
   (isinparentloop b \<and> \<not> shut_down (executor b) \<and> start_delay (executor b) = Some s \<longrightarrow>
      fst (run b cx (Resolves d out) (Some tmo) w) =
        (if s + d \<le> tmo then Some \<lparr>outcome = out, blocked_for = s + d\<rparr>
         else Some \<lparr>outcome = Inl TimeoutError, blocked_for = max 0 tmo\<rparr>) \<and>
      fst (run b cx (Resolves d out) None w) = Some \<lparr>outcome = out, blocked_for = s + d\<rparr>) \<and>
   (isinparentloop b \<and> \<not> shut_down (executor b) \<and> (f = Never \<or> start_delay (executor b) = None) \<longrightarrow>
      fst (run b cx f (Some tmo) w) = Some \<lparr>outcome = Inl TimeoutError, blocked_for = max 0 tmo\<rparr> \<and>
      fst (run b cx f None w) = None)"
proof -
  have ignored: "\<not> isinparentloop b \<longrightarrow> run b cx f t1 w = run b cx f t2 w"
    by (simp add: run_def)
  have blocks: "\<not> isinparentloop b \<and> loop b = Some l \<and> cx = None \<longrightarrow>
      fst (run b cx f t w) =
        (case f of Never \<Rightarrow> None | Resolves d out \<Rightarrow> Some \<lparr>outcome = out, blocked_for = d\<rparr>)"
    by (simp add: run_def run_until_complete_def split: awaited.splits)
  have bounded: "isinparentloop b \<longrightarrow>
      (\<exists>r. fst (run b cx f (Some tmo) w) = Some r \<and> blocked_for r \<le> max 0 tmo)"
  proof
    assume yes: "isinparentloop b"
    show "\<exists>r. fst (run b cx f (Some tmo) w) = Some r \<and> blocked_for r \<le> max 0 tmo"
    proof (cases "shut_down (executor b)")
      case True
      with yes show ?thesis by (simp add: run_def submit_def)
    next
      case False
      show ?thesis
        unfolding run_pool [OF yes False] using wait_bounded by simp
    qed
  qed
  have passed: "isinparentloop b \<longrightarrow> \<not> shut_down (executor b) \<longrightarrow>
      last (snd (snd (run b cx f (Some tmo) w))) = FutureResult (Some tmo)"
    unfolding run_world by simp
  have exact: "isinparentloop b \<and> \<not> shut_down (executor b) \<and> start_delay (executor b) = Some s \<longrightarrow>
      fst (run b cx (Resolves d out) (Some tmo) w) =
        (if s + d \<le> tmo then Some \<lparr>outcome = out, blocked_for = s + d\<rparr>
         else Some \<lparr>outcome = Inl TimeoutError, blocked_for = max 0 tmo\<rparr>) \<and>
      fst (run b cx (Resolves d out) None w) = Some \<lparr>outcome = out, blocked_for = s + d\<rparr>"
  proof
    assume h: "isinparentloop b \<and> \<not> shut_down (executor b) \<and> start_delay (executor b) = Some s"
    then have yes: "isinparentloop b" and acc: "\<not> shut_down (executor b)"
      and s: "start_delay (executor b) = Some s" by simp_all
    show "fst (run b cx (Resolves d out) (Some tmo) w) =
        (if s + d \<le> tmo then Some \<lparr>outcome = out, blocked_for = s + d\<rparr>
         else Some \<lparr>outcome = Inl TimeoutError, blocked_for = max 0 tmo\<rparr>) \<and>
      fst (run b cx (Resolves d out) None w) = Some \<lparr>outcome = out, blocked_for = s + d\<rparr>"
      unfolding run_pool [OF yes acc] s
      by (simp add: future_result_def finishes_in_new_job)
  qed
  have never: "isinparentloop b \<and> \<not> shut_down (executor b) \<and> (f = Never \<or> start_delay (executor b) = None) \<longrightarrow>
      fst (run b cx f (Some tmo) w) = Some \<lparr>outcome = Inl TimeoutError, blocked_for = max 0 tmo\<rparr> \<and>
      fst (run b cx f None w) = None"
  proof
    assume h: "isinparentloop b \<and> \<not> shut_down (executor b) \<and> (f = Never \<or> start_delay (executor b) = None)"
    then have yes: "isinparentloop b" and acc: "\<not> shut_down (executor b)" by simp_all
    from h have none: "finishes_in \<lparr>starts_in = start_delay (executor b), work = f\<rparr> = None"
      by (auto simp: finishes_in_new_job)
    show "fst (run b cx f (Some tmo) w) = Some \<lparr>outcome = Inl TimeoutError, blocked_for = max 0 tmo\<rparr> \<and>
      fst (run b cx f None w) = None"
      unfolding run_pool [OF yes acc]
      by (simp add: wait_late none wait_for_ever)
  qed
  from ignored blocks bounded passed exact never show ?thesis by blast
qed

text \<open>
  The theorem at an operation that returns 42 after five seconds: with a timeout of one
  second the own loop gives 42 all the same and the pool gives \<^verbatim>\<open>TimeoutError\<close>; with a
  timeout of six seconds the pool gives 42.
\<close>

theorem timeout_honoured_only_on_pool_path_witness:
  "run \<lparr>executor = \<lparr>max_workers = 1, shut_down = False, in_flight = [], settled = []\<rparr>,
         isinparentloop = False, loop = Some \<lparr>loop_id = 0, is_running = False\<rparr>\<rparr>
       None (Resolves 5 (Inr (42::int))) (Some 1) [] =
   run \<lparr>executor = \<lparr>max_workers = 1, shut_down = False, in_flight = [], settled = []\<rparr>,
         isinparentloop = False, loop = Some \<lparr>loop_id = 0, is_running = False\<rparr>\<rparr>
       None (Resolves 5 (Inr (42::int))) None [] \<and>
   fst (run \<lparr>executor = \<lparr>max_workers = 1, shut_down = False, in_flight = [], settled = []\<rparr>,
         isinparentloop = False, loop = Some \<lparr>loop_id = 0, is_running = False\<rparr>\<rparr>
       None (Resolves 5 (Inr (42::int))) (Some 1) []) = Some \<lparr>outcome = Inr 42, blocked_for = 5\<rparr> \<and>
   fst (run \<lparr>executor = \<lparr>max_workers = 1, shut_down = False, in_flight = [], settled = []\<rparr>,
         isinparentloop = True, loop = None\<rparr>
       None (Resolves 5 (Inr (42::int))) (Some 1) []) =
     Some \<lparr>outcome = Inl TimeoutError, blocked_for = 1\<rparr> \<and>
   fst (run \<lparr>executor = \<lparr>max_workers = 1, shut_down = False, in_flight = [], settled = []\<rparr>,
         isinparentloop = True, loop = None\<rparr>
       None (Resolves 5 (Inr (42::int))) (Some 6) []) =
     Some \<lparr>outcome = Inr 42, blocked_for = 5\<rparr>"
proof -
  let ?own = "\<lparr>executor = \<lparr>max_workers = 1, shut_down = False, in_flight = [], settled = []\<rparr>,
         isinparentloop = False, loop = Some \<lparr>loop_id = 0, is_running = False\<rparr>\<rparr> :: int bridge"
  let ?pool = "\<lparr>executor = \<lparr>max_workers = 1, shut_down = False, in_flight = [], settled = []\<rparr>,
         isinparentloop = True, loop = None\<rparr> :: int bridge"
  let ?f = "Resolves 5 (Inr 42) :: int awaited"
  have idle: "start_delay (executor ?pool) = Some 0"
    by (simp add: start_delay_def)
  from timeout_honoured_only_on_pool_path
    [where b = ?own and cx = None and f = ?f and ?t1.0 = "Some 1" and ?t2.0 = None and w = "[]",
      THEN conjunct1]
  have a: "run ?own None ?f (Some 1) [] = run ?own None ?f None []"
    by simp
  from timeout_honoured_only_on_pool_path
    [where b = ?own and cx = None and f = ?f and t = "Some 1"
       and l = "\<lparr>loop_id = 0, is_running = False\<rparr>" and w = "[]",
      THEN conjunct2, THEN conjunct1]
  have b: "fst (run ?own None ?f (Some 1) []) = Some \<lparr>outcome = Inr 42, blocked_for = 5\<rparr>"
    by simp
  from timeout_honoured_only_on_pool_path
    [where b = ?pool and cx = None and d = 5 and out = "Inr 42" and s = 0 and tmo = 1 and w = "[]",
      THEN conjunct2, THEN conjunct2, THEN conjunct2, THEN conjunct1] idle
  have c: "fst (run ?pool None ?f (Some 1) []) = Some \<lparr>outcome = Inl TimeoutError, blocked_for = 1\<rparr>"
    by simp
  from timeout_honoured_only_on_pool_path
    [where b = ?pool and cx = None and d = 5 and out = "Inr 42" and s = 0 and tmo = 6 and w = "[]",
      THEN conjunct2, THEN conjunct2, THEN conjunct2, THEN conjunct1] idle
  have d: "fst (run ?pool None ?f (Some 6) []) = Some \<lparr>outcome = Inr 42, blocked_for = 5\<rparr>"
    by simp
  from a b c d show ?thesis by blast
qed

text \<open>
  Claim C2, as stated, fails. On the pool path: an instance built inside a running loop
  is given an operation that returns 42 after five seconds and a timeout of one second;
  \<open>run\<close> raises \<^verbatim>\<open>TimeoutError\<close> and the caller never sees 42. On the own loop: an
  instance built outside any loop is called from inside a running loop; the loop
  refuses to run and the caller gets \<^verbatim>\<open>RuntimeError\<close>.
\<close>

theorem run_result_lost_on_timeout_counterexample:
  "(init 1 (Some \<lparr>loop_id = 7, is_running = True\<rparr>) [] :: (pyexn + int bridge) \<times> world) =
     (Inr \<lparr>executor = \<lparr>max_workers = 1, shut_down = False, in_flight = [], settled = []\<rparr>,
           isinparentloop = True, loop = None\<rparr>,
      [NewExecutor 1]) \<and>
   fst (run \<lparr>executor = \<lparr>max_workers = 1, shut_down = False, in_flight = [], settled = []\<rparr>,
           isinparentloop = True, loop = None\<rparr>
         (Some \<lparr>loop_id = 7, is_running = True\<rparr>)
         (Resolves 5 (Inr (42::int))) (Some 1) [NewExecutor 1]) =
     Some \<lparr>outcome = Inl TimeoutError, blocked_for = 1\<rparr> \<and>
   (init 1 None [] :: (pyexn + int bridge) \<times> world) =
     (Inr \<lparr>executor = \<lparr>max_workers = 1, shut_down = False, in_flight = [], settled = []\<rparr>,
           isinparentloop = False, loop = Some \<lparr>loop_id = 0, is_running = False\<rparr>\<rparr>,
      [NewExecutor 1, NewEventLoop 0, SetEventLoop 0]) \<and>
   fst (run \<lparr>executor = \<lparr>max_workers = 1, shut_down = False, in_flight = [], settled = []\<rparr>,
           isinparentloop = False, loop = Some \<lparr>loop_id = 0, is_running = False\<rparr>\<rparr>
         (Some \<lparr>loop_id = 7, is_running = True\<rparr>)
         (Resolves 5 (Inr (42::int))) None [NewExecutor 1, NewEventLoop 0, SetEventLoop 0]) =
     Some \<lparr>outcome = Inl (RuntimeError ''Cannot run the event loop while another loop is running''),
           blocked_for = 0\<rparr>"
  by (simp add: init_def ThreadPoolExecutor_def isinloop_def get_running_loop_def
      new_event_loop_def set_event_loop_def loops_created_def
      run_def submit_def future_result_def async_to_sync_def run_until_complete_def
      start_delay_def finishes_in_def)

text \<open>
  Claim C2, amended. For an instance in any state its life can reach, and an operation
  that resolves with \<open>out\<close> (a result \<open>Inr v\<close> or a failure \<open>Inl e\<close>) after \<open>d\<close> seconds: on
  the instance's own loop, called outside any running loop, \<open>run\<close> gives exactly \<open>out\<close>;
  on the pool path it gives exactly \<open>out\<close> whenever the pool still accepts tasks and the
  task, begun \<open>s\<close> seconds after its submission behind the tasks in flight, finishes
  within the timeout (or there is none). Nothing wraps or replaces the result or the
  failure. With a timeout shorter than the time the task takes to finish, \<open>run\<close> raises
  \<^verbatim>\<open>TimeoutError\<close> instead.
\<close>

theorem run_returns_operation_outcome:
  assumes "init n ctx w0 = (Inr b0, w1)" and "perform b0 w1 rs = (b, w)"
  shows "(\<not> isinparentloop b \<and> cx = None \<longrightarrow>
            fst (run b cx (Resolves d out) t w) = Some \<lparr>outcome = out, blocked_for = d\<rparr>) \<and>
         (isinparentloop b \<and> \<not> shut_down (executor b) \<and> start_delay (executor b) = Some s \<and>
            (case t of None \<Rightarrow> True | Some tmo \<Rightarrow> s + d \<le> tmo) \<longrightarrow>
            fst (run b cx (Resolves d out) t w) = Some \<lparr>outcome = out, blocked_for = s + d\<rparr>) \<and>
         (isinparentloop b \<and> \<not> shut_down (executor b) \<and>
            (case start_delay (executor b) of None \<Rightarrow> True | Some s \<Rightarrow> tmo < s + d) \<longrightarrow>
            fst (run b cx (Resolves d out) (Some tmo) w) =
              Some \<lparr>outcome = Inl TimeoutError, blocked_for = max 0 tmo\<rparr>)"
proof -
  have keep: "isinparentloop b = isinparentloop b0" "loop b = loop b0"
    using perform_keeps_routing [OF assms(2)] by simp_all
  have own: "\<not> isinparentloop b \<and> cx = None \<longrightarrow>
            fst (run b cx (Resolves d out) t w) = Some \<lparr>outcome = out, blocked_for = d\<rparr>"
  proof
    assume h: "\<not> isinparentloop b \<and> cx = None"
    with keep have "\<not> isinparentloop b0" by simp
    from init_Inr(5) [OF assms(1) this] keep obtain l where "loop b = Some l" by simp
    with h show "fst (run b cx (Resolves d out) t w) = Some \<lparr>outcome = out, blocked_for = d\<rparr>"
      by (simp add: run_def run_until_complete_def)
  qed
  have in_time: "isinparentloop b \<and> \<not> shut_down (executor b) \<and> start_delay (executor b) = Some s \<and>
            (case t of None \<Rightarrow> True | Some tmo \<Rightarrow> s + d \<le> tmo) \<longrightarrow>
            fst (run b cx (Resolves d out) t w) = Some \<lparr>outcome = out, blocked_for = s + d\<rparr>"
  proof
    assume h: "isinparentloop b \<and> \<not> shut_down (executor b) \<and> start_delay (executor b) = Some s \<and>
            (case t of None \<Rightarrow> True | Some tmo \<Rightarrow> s + d \<le> tmo)"
    then have yes: "isinparentloop b" and acc: "\<not> shut_down (executor b)"
      and s: "start_delay (executor b) = Some s"
      and t: "case t of None \<Rightarrow> True | Some tmo \<Rightarrow> s + d \<le> tmo" by simp_all
    show "fst (run b cx (Resolves d out) t w) = Some \<lparr>outcome = out, blocked_for = s + d\<rparr>"
      unfolding run_pool [OF yes acc] s
      using t by (simp add: wait_in_time finishes_in_new_job)
  qed
  have late: "isinparentloop b \<and> \<not> shut_down (executor b) \<and>
            (case start_delay (executor b) of None \<Rightarrow> True | Some s \<Rightarrow> tmo < s + d) \<longrightarrow>
            fst (run b cx (Resolves d out) (Some tmo) w) =
              Some \<lparr>outcome = Inl TimeoutError, blocked_for = max 0 tmo\<rparr>"
  proof
    assume h: "isinparentloop b \<and> \<not> shut_down (executor b) \<and>
            (case start_delay (executor b) of None \<Rightarrow> True | Some s \<Rightarrow> tmo < s + d)"
    then have yes: "isinparentloop b" and acc: "\<not> shut_down (executor b)" by simp_all
    from h have "case finishes_in \<lparr>starts_in = start_delay (executor b), work = Resolves d out\<rparr> of
        None \<Rightarrow> True | Some c \<Rightarrow> tmo < c"
      by (cases "start_delay (executor b)") (simp_all add: finishes_in_new_job)
    then show "fst (run b cx (Resolves d out) (Some tmo) w) =
              Some \<lparr>outcome = Inl TimeoutError, blocked_for = max 0 tmo\<rparr>"
      unfolding run_pool [OF yes acc] by (simp add: wait_late)
  qed
  from own in_time late show ?thesis by blast
qed

text \<open>
  The theorem at the two instances of the default size: the value 42 comes back from the
  own loop, a failure comes back unchanged from the pool, and the same failure is
  replaced by \<^verbatim>\<open>TimeoutError\<close> when the timeout is shorter.
\<close>

theorem run_returns_operation_outcome_witness:
  "(init 1 None [] :: (pyexn + int bridge) \<times> world) =
     (Inr \<lparr>executor = \<lparr>max_workers = 1, shut_down = False, in_flight = [], settled = []\<rparr>,
           isinparentloop = False, loop = Some \<lparr>loop_id = 0, is_running = False\<rparr>\<rparr>,
      [NewExecutor 1, NewEventLoop 0, SetEventLoop 0]) \<and>
   fst (run \<lparr>executor = \<lparr>max_workers = 1, shut_down = False, in_flight = [], settled = []\<rparr>,
           isinparentloop = False, loop = Some \<lparr>loop_id = 0, is_running = False\<rparr>\<rparr>
         None (Resolves 2 (Inr (42::int))) None [NewExecutor 1, NewEventLoop 0, SetEventLoop 0]) =
     Some \<lparr>outcome = Inr 42, blocked_for = 2\<rparr> \<and>
   (init 1 (Some \<lparr>loop_id = 7, is_running = True\<rparr>) [] :: (pyexn + int bridge) \<times> world) =
     (Inr \<lparr>executor = \<lparr>max_workers = 1, shut_down = False, in_flight = [], settled = []\<rparr>,
           isinparentloop = True, loop = None\<rparr>,
      [NewExecutor 1]) \<and>
   fst (run \<lparr>executor = \<lparr>max_workers = 1, shut_down = False, in_flight = [], settled = []\<rparr>,
           isinparentloop = True, loop = None\<rparr>
         (Some \<lparr>loop_id = 7, is_running = True\<rparr>)
         (Resolves 2 (Inl (OtherError ''boom'') :: pyexn + int)) (Some 3) [NewExecutor 1]) =
     Some \<lparr>outcome = Inl (OtherError ''boom''), blocked_for = 2\<rparr> \<and>
   fst (run \<lparr>executor = \<lparr>max_workers = 1, shut_down = False, in_flight = [], settled = []\<rparr>,
           isinparentloop = True, loop = None\<rparr>
         (Some \<lparr>loop_id = 7, is_running = True\<rparr>)
         (Resolves 2 (Inl (OtherError ''boom'') :: pyexn + int)) (Some 1) [NewExecutor 1]) =
     Some \<lparr>outcome = Inl TimeoutError, blocked_for = 1\<rparr>"
proof -
  let ?own = "\<lparr>executor = \<lparr>max_workers = 1, shut_down = False, in_flight = [], settled = []\<rparr>,
           isinparentloop = False, loop = Some \<lparr>loop_id = 0, is_running = False\<rparr>\<rparr> :: int bridge"
  let ?pool = "\<lparr>executor = \<lparr>max_workers = 1, shut_down = False, in_flight = [], settled = []\<rparr>,
           isinparentloop = True, loop = None\<rparr> :: int bridge"
  let ?cx = "Some \<lparr>loop_id = 7, is_running = True\<rparr>"
  have i1: "init 1 None [] = (Inr ?own, [NewExecutor 1, NewEventLoop 0, SetEventLoop 0])"
    by (simp add: init_def ThreadPoolExecutor_def isinloop_def get_running_loop_def
        new_event_loop_def set_event_loop_def loops_created_def)
  have p1: "perform ?own [NewExecutor 1, NewEventLoop 0, SetEventLoop 0] [] =
      (?own, [NewExecutor 1, NewEventLoop 0, SetEventLoop 0])"
    by simp
  have i2: "init 1 ?cx [] = (Inr ?pool, [NewExecutor 1])"
    by (simp add: init_def ThreadPoolExecutor_def isinloop_def get_running_loop_def)
  have p2: "perform ?pool [NewExecutor 1] [] = (?pool, [NewExecutor 1])"
    by simp
  have idle: "start_delay (executor ?pool) = Some 0"
    by (simp add: start_delay_def)
  from run_returns_operation_outcome
    [OF i1 p1, where cx = None and d = 2 and out = "Inr 42" and t = None, THEN conjunct1]
  have r1: "fst (run ?own None (Resolves 2 (Inr 42)) None [NewExecutor 1, NewEventLoop 0, SetEventLoop 0]) =
     Some \<lparr>outcome = Inr 42, blocked_for = 2\<rparr>"
    by simp
  from run_returns_operation_outcome
    [OF i2 p2, where cx = ?cx and d = 2 and out = "Inl (OtherError ''boom'')" and t = "Some 3" and s = 0,
      THEN conjunct2, THEN conjunct1] idle
  have r2: "fst (run ?pool ?cx (Resolves 2 (Inl (OtherError ''boom''))) (Some 3) [NewExecutor 1]) =
     Some \<lparr>outcome = Inl (OtherError ''boom''), blocked_for = 2\<rparr>"
    by simp
  from run_returns_operation_outcome
    [OF i2 p2, where cx = ?cx and d = 2 and out = "Inl (OtherError ''boom'')" and tmo = 1,
      THEN conjunct2, THEN conjunct2] idle
  have r3: "fst (run ?pool ?cx (Resolves 2 (Inl (OtherError ''boom''))) (Some 1) [NewExecutor 1]) =
     Some \<lparr>outcome = Inl TimeoutError, blocked_for = 1\<rparr>"
    by simp
  from i1 r1 i2 r2 r3 show ?thesis by simp
qed

lemma shutdown_unfold:
  "shutdown b w =
     (if list_all (\<lambda>j. finishes_in j \<noteq> None) (in_flight (executor b)) then Some (Inr ()) else None,
      b\<lparr>executor := (drain (executor b))\<lparr>shut_down := True\<rparr>\<rparr>,
      w @ [ExecutorShutdown True])"
  by (simp add: shutdown_def executor_shutdown_def)

text \<open>
  Claim C4. On the pool path, with a pool that accepts tasks, an operation that resolves
  later than the timeout (by its own duration \<open>d\<close>, or by the time \<open>s + d\<close> its task
  takes behind the tasks before it) makes \<open>run\<close> raise \<^verbatim>\<open>TimeoutError\<close>. The only library calls are
  \<open>submit\<close> and the wait; the pool afterwards is the pool with the task queued, the
  timeout later: the task is still in flight there, nothing has cancelled it. When the
  tasks before it let it begin, a later \<open>shutdown\<close> finds it finished on its worker with
  the outcome the operation has, which no caller received; after the shutdown only
  tasks that never finish are left. On a pool that was idle the shutdown leaves exactly
  that one outcome more.
\<close>

theorem timed_out_task_keeps_running:
  assumes "isinparentloop b" and "\<not> shut_down (executor b)"
    and "tmo < d \<or> (case start_delay (executor b) of None \<Rightarrow> True | Some s \<Rightarrow> tmo < s + d)"
  shows "run b cx (Resolves d out) (Some tmo) w =
           (Some \<lparr>outcome = Inl TimeoutError, blocked_for = max 0 tmo\<rparr>,
            b\<lparr>executor := elapse (max 0 tmo)
                 ((executor b)\<lparr>in_flight := in_flight (executor b) @
                    [\<lparr>starts_in = start_delay (executor b), work = Resolves d out\<rparr>]\<rparr>)\<rparr>,
            w @ [Submit, FutureResult (Some tmo)]) \<and>
         (0 \<le> tmo \<longrightarrow>
            later tmo \<lparr>starts_in = start_delay (executor b), work = Resolves d out\<rparr>
              \<in> set (in_flight (executor (fst (snd (run b cx (Resolves d out) (Some tmo) w)))))) \<and>
         (start_delay (executor b) \<noteq> None \<longrightarrow>
            out \<in> set (settled (executor (fst (snd (shutdown
                    (fst (snd (run b cx (Resolves d out) (Some tmo) w))) w')))))) \<and>
         (\<forall>j \<in> set (in_flight (executor (fst (snd (shutdown
                    (fst (snd (run b cx (Resolves d out) (Some tmo) w))) w'))))).
            finishes_in j = None) \<and>
         (in_flight (executor b) = [] \<and> 0 < max_workers (executor b) \<longrightarrow>
            settled (executor (fst (snd (shutdown
                    (fst (snd (run b cx (Resolves d out) (Some tmo) w))) w')))) =
              settled (executor b) @ [out] \<and>
            in_flight (executor (fst (snd (shutdown
                    (fst (snd (run b cx (Resolves d out) (Some tmo) w))) w')))) = [])"
proof -
  let ?job = "\<lparr>starts_in = start_delay (executor b), work = Resolves d out\<rparr>"
  let ?ex1 = "(executor b)\<lparr>in_flight := in_flight (executor b) @ [?job]\<rparr>"
  let ?dt = "max 0 tmo"
  let ?b1 = "b\<lparr>executor := elapse ?dt ?ex1\<rparr>"
  have late: "case finishes_in ?job of None \<Rightarrow> True | Some c \<Rightarrow> tmo < c"
  proof (cases "start_delay (executor b)")
    case None
    then show ?thesis by (simp add: finishes_in_new_job)
  next
    case (Some s)
    with start_delay_nonneg [OF Some] assms(3) show ?thesis
      by (auto simp: finishes_in_new_job)
  qed
  have timed_out: "run b cx (Resolves d out) (Some tmo) w =
      (Some \<lparr>outcome = Inl TimeoutError, blocked_for = ?dt\<rparr>, ?b1, w @ [Submit, FutureResult (Some tmo)])"
    unfolding run_pool [OF assms(1,2)] by (simp add: wait_late [OF late])
  have b1: "fst (snd (run b cx (Resolves d out) (Some tmo) w)) = ?b1"
    by (simp add: timed_out)
  have pending: "0 \<le> tmo \<longrightarrow> later tmo ?job \<in> set (in_flight (executor ?b1))"
  proof
    assume nn: "0 \<le> tmo"
    have "\<not> finished (later tmo ?job)"
    proof (cases "start_delay (executor b)")
      case None
      then show ?thesis by (simp add: finished_def finishes_in_later finishes_in_new_job)
    next
      case (Some s)
      with start_delay_nonneg [OF Some] assms(3) show ?thesis
        by (auto simp: finished_def finishes_in_later finishes_in_new_job)
    qed
    with nn show "later tmo ?job \<in> set (in_flight (executor ?b1))"
      by (auto simp: in_flight_elapse)
  qed
  let ?b2 = "fst (snd (shutdown ?b1 w'))"
  have s2: "settled (executor ?b2) =
      settled (executor b) @ outcomes (filter finished (map (later ?dt) (in_flight ?ex1)))
        @ outcomes (filter (\<lambda>j. finishes_in j \<noteq> None) (in_flight (elapse ?dt ?ex1)))"
    by (simp add: shutdown_unfold drain_def elapse_def)
  have f2: "in_flight (executor ?b2) = filter (\<lambda>j. finishes_in j = None) (in_flight (elapse ?dt ?ex1))"
    by (simp add: shutdown_unfold drain_def)
  have completes: "start_delay (executor b) \<noteq> None \<longrightarrow> out \<in> set (settled (executor ?b2))"
  proof
    assume "start_delay (executor b) \<noteq> None"
    then obtain s where s: "start_delay (executor b) = Some s" by auto
    let ?j = "later ?dt ?job"
    have fin: "finishes_in ?j = Some (s + d - ?dt)"
      by (simp add: finishes_in_later finishes_in_new_job s)
    have res: "resolution (work ?j) = Some out" by simp
    have mem: "?j \<in> set (map (later ?dt) (in_flight ?ex1))" by simp
    show "out \<in> set (settled (executor ?b2))"
    proof (cases "finished ?j")
      case True
      with mem res have "out \<in> set (outcomes (filter finished (map (later ?dt) (in_flight ?ex1))))"
        unfolding set_outcomes by (intro CollectI bexI [of _ ?j]) simp_all
      then show ?thesis unfolding s2 by simp
    next
      case False
      then have "?j \<in> set (in_flight (elapse ?dt ?ex1))"
        by (auto simp: in_flight_elapse)
      with fin res
      have "out \<in> set (outcomes (filter (\<lambda>j. finishes_in j \<noteq> None) (in_flight (elapse ?dt ?ex1))))"
        unfolding set_outcomes by (intro CollectI bexI [of _ ?j]) simp_all
      then show ?thesis unfolding s2 by simp
    qed
  qed
  have rest: "\<forall>j \<in> set (in_flight (executor ?b2)). finishes_in j = None"
    unfolding f2 by simp
  have idle: "in_flight (executor b) = [] \<and> 0 < max_workers (executor b) \<longrightarrow>
      settled (executor ?b2) = settled (executor b) @ [out] \<and> in_flight (executor ?b2) = []"
  proof
    assume h: "in_flight (executor b) = [] \<and> 0 < max_workers (executor b)"
    then have s: "start_delay (executor b) = Some 0"
      by (simp add: start_delay_def)
    show "settled (executor ?b2) = settled (executor b) @ [out] \<and> in_flight (executor ?b2) = []"
    proof (cases "finished (later ?dt ?job)")
      case True
      with h show ?thesis
        unfolding s2 f2 by (simp add: elapse_def)
    next
      case False
      have "finishes_in (later ?dt ?job) \<noteq> None"
        by (simp add: finishes_in_later finishes_in_new_job s)
      with False h show ?thesis
        unfolding s2 f2 by (simp add: elapse_def)
    qed
  qed
  from timed_out pending completes rest idle show ?thesis
    unfolding b1 by blast
qed

text \<open>
  The theorem at an operation that returns 42 after five seconds, with a timeout of one
  second, and at the shutdown that follows.
\<close>

theorem timed_out_task_keeps_running_witness:
  "run \<lparr>executor = \<lparr>max_workers = 1, shut_down = False, in_flight = [], settled = []\<rparr>,
         isinparentloop = True, loop = None\<rparr>
       None (Resolves 5 (Inr (42::int))) (Some 1) [] =
     (Some \<lparr>outcome = Inl TimeoutError, blocked_for = 1\<rparr>,
      \<lparr>executor = \<lparr>max_workers = 1, shut_down = False,
           in_flight = [\<lparr>starts_in = Some (- 1), work = Resolves 5 (Inr 42)\<rparr>],
           settled = []\<rparr>, isinparentloop = True, loop = None\<rparr>,
      [Submit, FutureResult (Some 1)]) \<and>
   settled (executor (fst (snd (shutdown
     \<lparr>executor = \<lparr>max_workers = 1, shut_down = False,
           in_flight = [\<lparr>starts_in = Some (- 1), work = Resolves 5 (Inr (42::int))\<rparr>],
           settled = []\<rparr>, isinparentloop = True, loop = None\<rparr>
     [Submit, FutureResult (Some 1)])))) = [Inr 42]"
proof -
  let ?pool = "\<lparr>executor = \<lparr>max_workers = 1, shut_down = False, in_flight = [], settled = []\<rparr>,
         isinparentloop = True, loop = None\<rparr> :: int bridge"
  let ?late = "\<lparr>executor = \<lparr>max_workers = 1, shut_down = False,
           in_flight = [\<lparr>starts_in = Some (- 1), work = Resolves 5 (Inr 42)\<rparr>],
           settled = []\<rparr>, isinparentloop = True, loop = None\<rparr> :: int bridge"
  have h1: "isinparentloop ?pool" by simp
  have h2: "\<not> shut_down (executor ?pool)" by simp
  have h3: "(1::real) < 5 \<or>
      (case start_delay (executor ?pool) of None \<Rightarrow> True | Some s \<Rightarrow> 1 < s + 5)" by simp
  note at_late = timed_out_task_keeps_running
    [OF h1 h2 h3, where cx = None and out = "Inr 42" and w = "[]"
       and w' = "[Submit, FutureResult (Some 1)]"]
  from at_late [THEN conjunct1] have timed_out: "run ?pool None (Resolves 5 (Inr 42)) (Some 1) [] =
     (Some \<lparr>outcome = Inl TimeoutError, blocked_for = 1\<rparr>, ?late, [Submit, FutureResult (Some 1)])"
    by (simp add: start_delay_def elapse_def later_def finished_def finishes_in_def)
  from at_late [THEN conjunct2, THEN conjunct2, THEN conjunct2, THEN conjunct2]
  have "settled (executor (fst (snd (shutdown
      (fst (snd (run ?pool None (Resolves 5 (Inr 42)) (Some 1) []))) [Submit, FutureResult (Some 1)])))) =
      [Inr 42]"
    by simp
  then have "settled (executor (fst (snd (shutdown ?late [Submit, FutureResult (Some 1)])))) =
      [Inr 42]"
    by (simp add: timed_out)
  with timed_out show ?thesis by simp
qed

section \<open>Shutdown\<close>

lemma all_finish_filter:
  "list_all (\<lambda>j. finishes_in j \<noteq> None) js \<Longrightarrow> filter (\<lambda>j. finishes_in j = None) js = []"
  by (induction js) auto

text \<open>
  Claim C7. \<open>shutdown\<close> never raises: either it returns normally (\<open>Some (Inr ())\<close>) or
  it is still waiting (\<open>None\<close>). It returns exactly when every task in flight finishes,
  and then no task is in flight any more, each has finished with its own outcome (none
  was cancelled) and the pool is shut down. A second call right after changes nothing
  in the instance and returns as well.
\<close>

theorem shutdown_idempotent:
  assumes "shutdown b w = (r, b', w')"
  shows "r \<in> {None, Some (Inr ())} \<and>
         (r = Some (Inr ())) = list_all (\<lambda>j. finishes_in j \<noteq> None) (in_flight (executor b)) \<and>
         w' = w @ [ExecutorShutdown True] \<and>
         shut_down (executor b') \<and>
         settled (executor b') =
           settled (executor b) @ outcomes (filter (\<lambda>j. finishes_in j \<noteq> None) (in_flight (executor b))) \<and>
         (r = Some (Inr ()) \<longrightarrow>
            in_flight (executor b') = [] \<and>
            shutdown b' w' = (Some (Inr ()), b', w' @ [ExecutorShutdown True]))"
proof -
  let ?ok = "list_all (\<lambda>j. finishes_in j \<noteq> None) (in_flight (executor b))"
  from assms have r: "r = (if ?ok then Some (Inr ()) else None)"
    and w': "w' = w @ [ExecutorShutdown True]"
    and b': "b' = b\<lparr>executor := (drain (executor b))\<lparr>shut_down := True\<rparr>\<rparr>"
    unfolding shutdown_unfold by simp_all
  have never_raises: "r \<in> {None, Some (Inr ())}"
    using r by simp
  have returns_iff: "(r = Some (Inr ())) = ?ok"
    using r by simp
  have stopped: "shut_down (executor b')"
    using b' by simp
  have kept: "settled (executor b') =
      settled (executor b) @ outcomes (filter (\<lambda>j. finishes_in j \<noteq> None) (in_flight (executor b)))"
    using b' by (simp add: drain_def)
  have again: "r = Some (Inr ()) \<longrightarrow>
            in_flight (executor b') = [] \<and>
            shutdown b' w' = (Some (Inr ()), b', w' @ [ExecutorShutdown True])"
  proof
    assume "r = Some (Inr ())"
    with returns_iff have ok: ?ok by simp
    have empty: "in_flight (executor b') = []"
      using b' all_finish_filter [OF ok] by (simp add: drain_def)
    have "shutdown b' w' = (Some (Inr ()), b', w' @ [ExecutorShutdown True])"
      unfolding shutdown_unfold using empty stopped by (simp add: drain_def)
    with empty show "in_flight (executor b') = [] \<and>
            shutdown b' w' = (Some (Inr ()), b', w' @ [ExecutorShutdown True])"
      by simp
  qed
  from never_raises returns_iff w' stopped kept again show ?thesis by blast
qed

text \<open>
  The theorem at a pool with one task in flight: two calls of \<open>shutdown\<close> in a row.
\<close>

theorem shutdown_idempotent_witness:
  "shutdown \<lparr>executor = \<lparr>max_workers = 1, shut_down = False,
                in_flight = [\<lparr>starts_in = Some (- 1), work = Resolves 5 (Inr (42::int))\<rparr>],
                settled = []\<rparr>,
              isinparentloop = True, loop = None\<rparr> [] =
     (Some (Inr ()),
      \<lparr>executor = \<lparr>max_workers = 1, shut_down = True, in_flight = [], settled = [Inr 42]\<rparr>,
        isinparentloop = True, loop = None\<rparr>,
      [ExecutorShutdown True]) \<and>
   shutdown \<lparr>executor = \<lparr>max_workers = 1, shut_down = True, in_flight = [],
                settled = [Inr (42::int)]\<rparr>,
              isinparentloop = True, loop = None\<rparr> [ExecutorShutdown True] =
     (Some (Inr ()),
      \<lparr>executor = \<lparr>max_workers = 1, shut_down = True, in_flight = [], settled = [Inr 42]\<rparr>,
        isinparentloop = True, loop = None\<rparr>,
      [ExecutorShutdown True, ExecutorShutdown True])"
proof -
  let ?b = "\<lparr>executor = \<lparr>max_workers = 1, shut_down = False,
                in_flight = [\<lparr>starts_in = Some (- 1), work = Resolves 5 (Inr 42)\<rparr>], settled = []\<rparr>,
              isinparentloop = True, loop = None\<rparr> :: int bridge"
  let ?b' = "\<lparr>executor = \<lparr>max_workers = 1, shut_down = True, in_flight = [], settled = [Inr 42]\<rparr>,
        isinparentloop = True, loop = None\<rparr> :: int bridge"
  have first: "shutdown ?b [] = (Some (Inr ()), ?b', [ExecutorShutdown True])"
    by (simp add: shutdown_def executor_shutdown_def drain_def finishes_in_def)
  have returned: "Some (Inr ()) = Some (Inr ())" by simp
  from shutdown_idempotent
    [OF first, THEN conjunct2, THEN conjunct2, THEN conjunct2, THEN conjunct2, THEN conjunct2,
      THEN mp, OF returned, THEN conjunct2]
  have "shutdown ?b' [ExecutorShutdown True] =
      (Some (Inr ()), ?b', [ExecutorShutdown True, ExecutorShutdown True])"
    by simp
  with first show ?thesis by simp
qed

section \<open>The connection cache\<close>

lemma login_cached:
  assumes "self_server self = Some s" and "connected s = Some True"
  shows "login self rem net = (Some (Inr (self_server self)), self, net)"
  using assms by (simp add: login_def)

lemma login_fresh:
  assumes "\<not> (\<exists>s. self_server self = Some s \<and> connected s = Some True)"
  shows "login self rem net =
     (case ws_connect rem (server_url self) of
        Silent \<Rightarrow>
          (None, self,
           net @ [NewServer (servers_created net) (server_url self), WsConnect (servers_created net)])
      | Fails e \<Rightarrow>
          (Some (Inl e), self,
           net @ [NewServer (servers_created net) (server_url self), WsConnect (servers_created net)])
      | Answer u \<Rightarrow>
          (case authenticateWithPassword rem (username self) (password self) of
             Silent \<Rightarrow>
               (None, self,
                net @ [NewServer (servers_created net) (server_url self),
                       WsConnect (servers_created net),
                       Authenticate (servers_created net) (username self) (password self)])
           | Fails e \<Rightarrow>
               (Some (Inl (except_ProtocolError e)), self,
                net @ [NewServer (servers_created net) (server_url self),
                       WsConnect (servers_created net),
                       Authenticate (servers_created net) (username self) (password self)])
           | Answer v \<Rightarrow>
               (Some (Inr (Some \<lparr>sid = servers_created net, url = server_url self,
                                  connected = Some True, authenticated = True\<rparr>)),
                self\<lparr>self_server := Some \<lparr>sid = servers_created net, url = server_url self,
                                  connected = Some True, authenticated = True\<rparr>\<rparr>,
                net @ [NewServer (servers_created net) (server_url self),
                       WsConnect (servers_created net),
                       Authenticate (servers_created net) (username self) (password self)])))"
proof -
  from assms have need: "(case self_server self of
            None \<Rightarrow> True
          | Some s \<Rightarrow> (case connected s of None \<Rightarrow> True | Some c \<Rightarrow> \<not> c))"
    by (auto split: option.splits)
  show ?thesis
    unfolding login_def using need
    by (simp add: Server_def Let_def split: answer.splits)
qed

lemma login_outcomes:
  assumes "login self rem net = (r, self', net')"
  shows "(net' = net) = (\<exists>s. self_server self = Some s \<and> connected s = Some True) \<and>
    ((\<exists>s. self_server self = Some s \<and> connected s = Some True) \<longrightarrow>
       r = Some (Inr (self_server self)) \<and> self' = self) \<and>
    (\<not> (\<exists>s. self_server self = Some s \<and> connected s = Some True) \<longrightarrow>
       take (length net + 2) net' =
         net @ [NewServer (servers_created net) (server_url self), WsConnect (servers_created net)] \<and>
       ((\<exists>v. r = Some (Inr v)) =
          (ws_connect rem (server_url self) = Answer () \<and>
           authenticateWithPassword rem (username self) (password self) = Answer ())) \<and>
       (\<forall>v. r = Some (Inr v) \<longrightarrow>
          v = Some \<lparr>sid = servers_created net, url = server_url self,
                    connected = Some True, authenticated = True\<rparr> \<and>
          self_server self' = v \<and>
          net' = net @ [NewServer (servers_created net) (server_url self),
                        WsConnect (servers_created net),
                        Authenticate (servers_created net) (username self) (password self)]))"
proof (cases "\<exists>s. self_server self = Some s \<and> connected s = Some True")
  case True
  then obtain s where s: "self_server self = Some s" "connected s = Some True" by blast
  from login_cached [OF s, of rem net] assms
  have "r = Some (Inr (self_server self))" "self' = self" "net' = net" by simp_all
  with True show ?thesis by simp
next
  case False
  note fresh = login_fresh [OF False, of rem net]
  show ?thesis
  proof (cases "ws_connect rem (server_url self)")
    case (Answer u)
    show ?thesis
    proof (cases "authenticateWithPassword rem (username self) (password self)")
      case (Answer v)
      with \<open>ws_connect rem (server_url self) = Answer u\<close> fresh assms False
      show ?thesis by auto
    next
      case (Fails e)
      with \<open>ws_connect rem (server_url self) = Answer u\<close> fresh assms False
      show ?thesis by auto
    next
      case Silent
      with \<open>ws_connect rem (server_url self) = Answer u\<close> fresh assms False
      show ?thesis by auto
    qed
  next
    case (Fails e)
    with fresh assms False show ?thesis by auto
  next
    case Silent
    with fresh assms False show ?thesis by auto
  qed
qed

text \<open>
  Claim C8. The client holds at most one connection object, \<open>self_server\<close>, and none
  when it is constructed. \<open>login\<close>
  reuses it (returns it, changes nothing, opens nothing) exactly when there is one, it
  has the attribute \<^verbatim>\<open>connected\<close> and the attribute is true. In every other case, the
  first call included, it creates a new object and connects it; it succeeds exactly
  when connecting and authenticating both succeed, and then the new, connected and
  authenticated object is what it returns and what the cache holds from then on.
\<close>

theorem login_reuses_connected_handle:
  assumes "login self rem net = (r, self', net')"
  shows "(OpenEMSAPIClient u name pw ctx w = (Inr new, w1) \<longrightarrow> self_server new = None) \<and>
    (net' = net) = (\<exists>s. self_server self = Some s \<and> connected s = Some True) \<and>
    ((\<exists>s. self_server self = Some s \<and> connected s = Some True) \<longrightarrow>
       r = Some (Inr (self_server self)) \<and> self' = self) \<and>
    (\<not> (\<exists>s. self_server self = Some s \<and> connected s = Some True) \<longrightarrow>
       take (length net + 2) net' =
         net @ [NewServer (servers_created net) (server_url self), WsConnect (servers_created net)] \<and>
       ((\<exists>v. r = Some (Inr v)) =
          (ws_connect rem (server_url self) = Answer () \<and>
           authenticateWithPassword rem (username self) (password self) = Answer ())) \<and>
       (\<forall>v. r = Some (Inr v) \<longrightarrow>
          v = Some \<lparr>sid = servers_created net, url = server_url self,
                    connected = Some True, authenticated = True\<rparr> \<and>
          self_server self' = v \<and>
          net' = net @ [NewServer (servers_created net) (server_url self),
                        WsConnect (servers_created net),
                        Authenticate (servers_created net) (username self) (password self)]))"
proof -
  have lazy: "OpenEMSAPIClient u name pw ctx w = (Inr new, w1) \<longrightarrow> self_server new = None"
    by (auto simp: OpenEMSAPIClient_def split: prod.splits sum.splits)
  from lazy login_outcomes [OF assms] show ?thesis
    by (rule conjI)
qed

text \<open>
  The theorem at a client whose cached object is connected (reused), and at the same
  client after the connection dropped (a second object is created, connected,
  authenticated and cached).
\<close>

theorem login_reuses_connected_handle_witness:
  "login
     (\<lparr>server_url = ''ws://ems'', username = ''u'', password = ''p'',
       self_server = Some \<lparr>sid = 0, url = ''ws://ems'', connected = Some True, authenticated = True\<rparr>,
       self_bridge = \<lparr>executor = \<lparr>max_workers = 1, shut_down = False, in_flight = [], settled = []\<rparr>,
                      isinparentloop = False, loop = Some \<lparr>loop_id = 0, is_running = False\<rparr>\<rparr>\<rparr>
        :: int list client)
     (\<lparr>ws_connect = (\<lambda>u. Answer ()), authenticateWithPassword = (\<lambda>n p. Answer ()),
       getEdges = (\<lambda>p l. Silent)\<rparr> :: int remote)
     [NewServer 0 ''ws://ems'', WsConnect 0, Authenticate 0 ''u'' ''p''] =
   (Some (Inr (Some \<lparr>sid = 0, url = ''ws://ems'', connected = Some True, authenticated = True\<rparr>)),
    \<lparr>server_url = ''ws://ems'', username = ''u'', password = ''p'',
       self_server = Some \<lparr>sid = 0, url = ''ws://ems'', connected = Some True, authenticated = True\<rparr>,
       self_bridge = \<lparr>executor = \<lparr>max_workers = 1, shut_down = False, in_flight = [], settled = []\<rparr>,
                      isinparentloop = False, loop = Some \<lparr>loop_id = 0, is_running = False\<rparr>\<rparr>\<rparr>,
    [NewServer 0 ''ws://ems'', WsConnect 0, Authenticate 0 ''u'' ''p'']) \<and>
   login
     (\<lparr>server_url = ''ws://ems'', username = ''u'', password = ''p'',
       self_server = Some \<lparr>sid = 0, url = ''ws://ems'', connected = Some False, authenticated = True\<rparr>,
       self_bridge = \<lparr>executor = \<lparr>max_workers = 1, shut_down = False, in_flight = [], settled = []\<rparr>,
                      isinparentloop = False, loop = Some \<lparr>loop_id = 0, is_running = False\<rparr>\<rparr>\<rparr>
        :: int list client)
     (\<lparr>ws_connect = (\<lambda>u. Answer ()), authenticateWithPassword = (\<lambda>n p. Answer ()),
       getEdges = (\<lambda>p l. Silent)\<rparr> :: int remote)
     [NewServer 0 ''ws://ems'', WsConnect 0, Authenticate 0 ''u'' ''p''] =
   (Some (Inr (Some \<lparr>sid = 1, url = ''ws://ems'', connected = Some True, authenticated = True\<rparr>)),
    \<lparr>server_url = ''ws://ems'', username = ''u'', password = ''p'',
       self_server = Some \<lparr>sid = 1, url = ''ws://ems'', connected = Some True, authenticated = True\<rparr>,
       self_bridge = \<lparr>executor = \<lparr>max_workers = 1, shut_down = False, in_flight = [], settled = []\<rparr>,
                      isinparentloop = False, loop = Some \<lparr>loop_id = 0, is_running = False\<rparr>\<rparr>\<rparr>,
    [NewServer 0 ''ws://ems'', WsConnect 0, Authenticate 0 ''u'' ''p'',
     NewServer 1 ''ws://ems'', WsConnect 1, Authenticate 1 ''u'' ''p''])"
proof -
  let ?b = "\<lparr>executor = \<lparr>max_workers = 1, shut_down = False, in_flight = [], settled = []\<rparr>,
             isinparentloop = False, loop = Some \<lparr>loop_id = 0, is_running = False\<rparr>\<rparr> :: int list bridge"
  let ?up = "\<lparr>server_url = ''ws://ems'', username = ''u'', password = ''p'',
       self_server = Some \<lparr>sid = 0, url = ''ws://ems'', connected = Some True, authenticated = True\<rparr>,
       self_bridge = ?b\<rparr>"
  let ?down = "\<lparr>server_url = ''ws://ems'', username = ''u'', password = ''p'',
       self_server = Some \<lparr>sid = 0, url = ''ws://ems'', connected = Some False, authenticated = True\<rparr>,
       self_bridge = ?b\<rparr>"
  let ?rem = "\<lparr>ws_connect = (\<lambda>u. Answer ()), authenticateWithPassword = (\<lambda>n p. Answer ()),
       getEdges = (\<lambda>p l. Silent)\<rparr> :: int remote"
  let ?net = "[NewServer 0 ''ws://ems'', WsConnect 0, Authenticate 0 ''u'' ''p'']"
  obtain r1 c1 n1 where l1: "login ?up ?rem ?net = (r1, c1, n1)" by (metis prod_cases3)
  from login_reuses_connected_handle [OF l1, THEN conjunct2]
  have "r1 = Some (Inr (self_server ?up))" "c1 = ?up" "n1 = ?net" by simp_all
  with l1 have first: "login ?up ?rem ?net = (Some (Inr (self_server ?up)), ?up, ?net)" by simp
  have second: "login ?down ?rem ?net =
     (Some (Inr (Some \<lparr>sid = 1, url = ''ws://ems'', connected = Some True, authenticated = True\<rparr>)),
      ?down\<lparr>self_server := Some \<lparr>sid = 1, url = ''ws://ems'', connected = Some True, authenticated = True\<rparr>\<rparr>,
      ?net @ [NewServer 1 ''ws://ems'', WsConnect 1, Authenticate 1 ''u'' ''p''])"
    by (simp add: login_def Server_def servers_created_def)
  from first second show ?thesis by simp
qed

text \<open>
  Claim C10. When \<open>login\<close> raises, at the connect step or at the authenticate step, the
  client is exactly what it was: the cache still holds what it held, never the new
  object. The cache was not usable before (a usable cache cannot fail), so it is not
  usable now, and the next call creates and connects a new object again, whatever the
  remote side then answers.
\<close>

theorem failed_login_keeps_cache:
  assumes "login self rem net = (Some (Inl e), self', net')"
  shows "self' = self \<and> self_server self' = self_server self \<and>
         \<not> (\<exists>s. self_server self = Some s \<and> connected s = Some True) \<and>
         take (length net' + 2) (snd (snd (login self' rem2 net'))) =
           net' @ [NewServer (servers_created net') (server_url self),
                   WsConnect (servers_created net')]"
proof -
  have need: "\<not> (\<exists>s. self_server self = Some s \<and> connected s = Some True)"
  proof
    assume "\<exists>s. self_server self = Some s \<and> connected s = Some True"
    then obtain s where s: "self_server self = Some s" "connected s = Some True" by blast
    from login_cached [OF s, of rem net] assms show False by simp
  qed
  have same: "self' = self"
    using login_fresh [OF need, of rem net] assms
    by (auto split: answer.splits)
  have "take (length net' + 2) (snd (snd (login self rem2 net'))) =
           net' @ [NewServer (servers_created net') (server_url self),
                   WsConnect (servers_created net')]"
    unfolding login_fresh [OF need, of rem2 net']
    by (simp split: answer.splits)
  with need same show ?thesis by simp
qed

text \<open>
  The theorem at a first login whose authentication is cut off, followed by a second
  login: it starts over with a second object.
\<close>

theorem failed_login_keeps_cache_witness:
  "login
     (\<lparr>server_url = ''ws://ems'', username = ''u'', password = ''p'', self_server = None,
       self_bridge = \<lparr>executor = \<lparr>max_workers = 1, shut_down = False, in_flight = [], settled = []\<rparr>,
                      isinparentloop = False, loop = Some \<lparr>loop_id = 0, is_running = False\<rparr>\<rparr>\<rparr>
        :: int list client)
     (\<lparr>ws_connect = (\<lambda>u. Answer ()),
       authenticateWithPassword = (\<lambda>n p. Fails (OtherError ''connection lost'')),
       getEdges = (\<lambda>p l. Silent)\<rparr> :: int remote)
     [] =
   (Some (Inl (OtherError ''connection lost'')),
    \<lparr>server_url = ''ws://ems'', username = ''u'', password = ''p'', self_server = None,
       self_bridge = \<lparr>executor = \<lparr>max_workers = 1, shut_down = False, in_flight = [], settled = []\<rparr>,
                      isinparentloop = False, loop = Some \<lparr>loop_id = 0, is_running = False\<rparr>\<rparr>\<rparr>,
    [NewServer 0 ''ws://ems'', WsConnect 0, Authenticate 0 ''u'' ''p'']) \<and>
   take 5 (snd (snd (login
     (\<lparr>server_url = ''ws://ems'', username = ''u'', password = ''p'', self_server = None,
       self_bridge = \<lparr>executor = \<lparr>max_workers = 1, shut_down = False, in_flight = [], settled = []\<rparr>,
                      isinparentloop = False, loop = Some \<lparr>loop_id = 0, is_running = False\<rparr>\<rparr>\<rparr>
        :: int list client)
     (\<lparr>ws_connect = (\<lambda>u. Answer ()), authenticateWithPassword = (\<lambda>n p. Answer ()),
       getEdges = (\<lambda>p l. Silent)\<rparr> :: int remote)
     [NewServer 0 ''ws://ems'', WsConnect 0, Authenticate 0 ''u'' ''p'']))) =
   [NewServer 0 ''ws://ems'', WsConnect 0, Authenticate 0 ''u'' ''p'',
    NewServer 1 ''ws://ems'', WsConnect 1]"
proof -
  let ?c = "\<lparr>server_url = ''ws://ems'', username = ''u'', password = ''p'', self_server = None,
       self_bridge = \<lparr>executor = \<lparr>max_workers = 1, shut_down = False, in_flight = [], settled = []\<rparr>,
                      isinparentloop = False, loop = Some \<lparr>loop_id = 0, is_running = False\<rparr>\<rparr>\<rparr>
        :: int list client"
  let ?bad = "\<lparr>ws_connect = (\<lambda>u. Answer ()),
       authenticateWithPassword = (\<lambda>n p. Fails (OtherError ''connection lost'')),
       getEdges = (\<lambda>p l. Silent)\<rparr> :: int remote"
  let ?good = "\<lparr>ws_connect = (\<lambda>u. Answer ()), authenticateWithPassword = (\<lambda>n p. Answer ()),
       getEdges = (\<lambda>p l. Silent)\<rparr> :: int remote"
  let ?net = "[NewServer 0 ''ws://ems'', WsConnect 0, Authenticate 0 ''u'' ''p'']"
  have failed: "login ?c ?bad [] = (Some (Inl (OtherError ''connection lost'')), ?c, ?net)"
    by (simp add: login_def Server_def servers_created_def except_ProtocolError_def)
  from failed_login_keeps_cache [OF failed, of ?good]
  have "take 5 (snd (snd (login ?c ?good ?net))) =
      ?net @ [NewServer 1 ''ws://ems'', WsConnect 1]"
    by (simp add: servers_created_def numeral_eq_Suc)
  with failed show ?thesis by simp
qed

section \<open>Remote failures\<close>

lemma except_ProtocolError_two:
  "except_ProtocolError (ProtocolError (c # m # rest)) = APIError (py_str c @ '': '' @ py_str m) c"
  by (simp add: except_ProtocolError_def isinstance_tuple_def)

lemma except_ProtocolError_short:
  "length args < 2 \<Longrightarrow>
     except_ProtocolError (ProtocolError args) = IndexError ''tuple index out of range''"
  by (cases args rule: list.exhaust [case_product list.exhaust])
     (auto simp: except_ProtocolError_def isinstance_tuple_def split: list.splits)

lemma never_reraised: "except_ProtocolError (ProtocolError args) \<noteq> ProtocolError args"
  by (simp add: except_ProtocolError_def isinstance_tuple_def split: list.splits)

lemma run_drives:
  assumes "drives b cx"
  shows "map_option outcome (fst (run b cx (Resolves d out) None w)) = Some out"
proof (cases "isinparentloop b")
  case True
  with assms obtain s where acc: "\<not> shut_down (executor b)" and s: "start_delay (executor b) = Some s"
    by (auto simp: drives_def)
  show ?thesis
    unfolding run_pool [OF True acc] s
    by (simp add: wait_in_time finishes_in_new_job)
next
  case False
  with assms obtain l where "loop b = Some l" "cx = None"
    by (auto simp: drives_def)
  with False show ?thesis
    by (simp add: run_def run_until_complete_def)
qed

text \<open>
  What the handler does for the errors it was written for: a \<^verbatim>\<open>ProtocolError\<close> whose
  \<^verbatim>\<open>args\<close> begin with a code \<open>c\<close> and a message \<open>m\<close> becomes \<^verbatim>\<open>APIError\<close> with the message
  \<^verbatim>\<open>f'{c}: {m}'\<close> and the code \<open>c\<close>, in \<open>login\<close> when authentication fails so, in the page
  loop of \<open>get_edges\<close>, and for the caller of \<open>get_edges\<close> through the bridge.
\<close>

lemma two_member_protocol_error_becomes_api_error:
  "(\<not> (\<exists>s. self_server self = Some s \<and> connected s = Some True) \<and>
    ws_connect rem (server_url self) = Answer () \<and>
    authenticateWithPassword rem (username self) (password self) = Fails (ProtocolError (c # m # rest)) \<longrightarrow>
      fst (login self rem net) = Some (Inl (APIError (py_str c @ '': '' @ py_str m) c))) \<and>
   (ge page limit = Fails (ProtocolError (c # m # rest)) \<longrightarrow>
      get_edges_pages ge page limit edges = Some (Inl (APIError (py_str c @ '': '' @ py_str m) c))) \<and>
   (drives (self_bridge client) cx \<and>
    (\<exists>s. fst (login client rem net) = Some (Inr (Some s))) \<and>
    getEdges rem 0 100 = Fails (ProtocolError (c # m # rest)) \<longrightarrow>
      map_option outcome (fst (get_edges client cx rem d net w)) =
        Some (Inl (APIError (py_str c @ '': '' @ py_str m) c)))"
proof -
  let ?api = "APIError (py_str c @ '': '' @ py_str m) c"
  have at_login: "\<not> (\<exists>s. self_server self = Some s \<and> connected s = Some True) \<and>
    ws_connect rem (server_url self) = Answer () \<and>
    authenticateWithPassword rem (username self) (password self) = Fails (ProtocolError (c # m # rest)) \<longrightarrow>
      fst (login self rem net) = Some (Inl ?api)"
  proof
    assume h: "\<not> (\<exists>s. self_server self = Some s \<and> connected s = Some True) \<and>
      ws_connect rem (server_url self) = Answer () \<and>
      authenticateWithPassword rem (username self) (password self) = Fails (ProtocolError (c # m # rest))"
    then have need: "\<not> (\<exists>s. self_server self = Some s \<and> connected s = Some True)" by simp
    show "fst (login self rem net) = Some (Inl ?api)"
      unfolding login_fresh [OF need, of rem net] using h
      by (simp add: except_ProtocolError_two)
  qed
  have at_page: "ge page limit = Fails (ProtocolError (c # m # rest)) \<longrightarrow>
      get_edges_pages ge page limit edges = Some (Inl ?api)"
    by (subst get_edges_pages.simps) (simp add: except_ProtocolError_two)
  have at_call: "drives (self_bridge client) cx \<and>
    (\<exists>s. fst (login client rem net) = Some (Inr (Some s))) \<and>
    getEdges rem 0 100 = Fails (ProtocolError (c # m # rest)) \<longrightarrow>
      map_option outcome (fst (get_edges client cx rem d net w)) = Some (Inl ?api)"
  proof
    assume h: "drives (self_bridge client) cx \<and>
      (\<exists>s. fst (login client rem net) = Some (Inr (Some s))) \<and>
      getEdges rem 0 100 = Fails (ProtocolError (c # m # rest))"
    then obtain s where s: "fst (login client rem net) = Some (Inr (Some s))" by blast
    obtain r1 c1 n1 where l: "login client rem net = (r1, c1, n1)" by (metis prod_cases3)
    with s have r1: "r1 = Some (Inr (Some s))" by simp
    have pages: "get_edges_pages (getEdges rem) 0 100 [] = Some (Inl ?api)"
      using h by (subst get_edges_pages.simps) (simp add: except_ProtocolError_two)
    have f: "get_edges_f client rem net = (Some (Inl ?api), c1, n1)"
      by (simp add: get_edges_f_def l r1 pages)
    from h have dr: "drives (self_bridge client) cx" by simp
    have "fst (get_edges client cx rem d net w) =
        fst (run (self_bridge client) cx (Resolves d (Inl ?api)) None w)"
      by (simp add: get_edges_def f dr split: prod.splits)
    then show "map_option outcome (fst (get_edges client cx rem d net w)) = Some (Inl ?api)"
      using run_drives [OF dr, of d "Inl ?api" w] by simp
  qed
  from at_login at_page at_call show ?thesis by blast
qed

text \<open>
  Claim C9. The claim is that every \<^verbatim>\<open>ProtocolError\<close> raised during a remote call reaches
  the caller as \<^verbatim>\<open>APIError\<close>. The code does not do that for a \<^verbatim>\<open>ProtocolError\<close> whose
  \<^verbatim>\<open>args\<close> hold one member only (as jsonrpc raises for a malformed response): the guard
  \<^verbatim>\<open>isinstance(e.args, tuple)\<close> lets it in, reading \<^verbatim>\<open>e.args[1]\<close> raises \<^verbatim>\<open>IndexError\<close>,
  and that is what the caller of \<open>login\<close> and the caller of \<open>get_edges\<close> get: neither
  the \<^verbatim>\<open>APIError\<close> of the claim nor the \<^verbatim>\<open>ProtocolError\<close> the docstring of \<open>login\<close> and
  the bare \<^verbatim>\<open>raise\<close> of the handler announce.
\<close>

theorem short_protocol_error_reaches_caller_as_index_error:
  "fst (login
     (\<lparr>server_url = ''ws://ems'', username = ''u'', password = ''p'', self_server = None,
       self_bridge = \<lparr>executor = \<lparr>max_workers = 1, shut_down = False, in_flight = [], settled = []\<rparr>,
                      isinparentloop = False, loop = Some \<lparr>loop_id = 0, is_running = False\<rparr>\<rparr>\<rparr>
        :: int list client)
     (\<lparr>ws_connect = (\<lambda>u. Answer ()),
       authenticateWithPassword = (\<lambda>n p. Fails (ProtocolError [PyStr ''Response is not a dictionary''])),
       getEdges = (\<lambda>p l. Silent)\<rparr> :: int remote)
     []) = Some (Inl (IndexError ''tuple index out of range'')) \<and>
   map_option outcome (fst (get_edges
     (\<lparr>server_url = ''ws://ems'', username = ''u'', password = ''p'', self_server = None,
       self_bridge = \<lparr>executor = \<lparr>max_workers = 1, shut_down = False, in_flight = [], settled = []\<rparr>,
                      isinparentloop = False, loop = Some \<lparr>loop_id = 0, is_running = False\<rparr>\<rparr>\<rparr>
        :: int list client)
     None
     (\<lparr>ws_connect = (\<lambda>u. Answer ()),
       authenticateWithPassword = (\<lambda>n p. Answer ()),
       getEdges = (\<lambda>p l. Fails (ProtocolError [PyStr ''Response without a result field'']))\<rparr>
        :: int remote)
     1 [] [])) = Some (Inl (IndexError ''tuple index out of range'')) \<and>
   except_ProtocolError (ProtocolError [PyStr ''Response is not a dictionary'']) \<noteq>
     ProtocolError [PyStr ''Response is not a dictionary'']"
  by (simp add: login_def Server_def servers_created_def except_ProtocolError_def
      isinstance_tuple_def get_edges_def get_edges_f_def get_edges_pages.simps run_def
      run_until_complete_def drives_def)

end
